theory Spec2Isabelle
  imports Complex_Main "HOL-Library.Word" "HOL-Library.While_Combinator"
begin

section \<open>Data model of \<^verbatim>\<open>datastructures.hh\<close>\<close>

text \<open>
  The identifier types of the header. \<^verbatim>\<open>RegionID\<close> is \<^verbatim>\<open>unsigned long long\<close> and
  \<^verbatim>\<open>Time\<close> is \<^verbatim>\<open>unsigned short\<close>, so both are words; \<^verbatim>\<open>Distance\<close> is \<^verbatim>\<open>int\<close>, whose
  overflow is undefined in the source and is not modelled: distances are mathematical
  integers.
\<close>

type_synonym StationID = string
type_synonym TrainID = string
type_synonym RegionID = "64 word"
type_synonym Name = string
type_synonym Time = "16 word"
type_synonym Distance = int

definition NO_STATION :: StationID where "NO_STATION = ''---''"
definition NO_TRAIN :: TrainID where "NO_TRAIN = ''---''"
definition NO_REGION :: RegionID where "NO_REGION = - 1"
definition NO_NAME :: Name where "NO_NAME = ''!NO_NAME!''"
definition NO_TIME :: Time where "NO_TIME = 9999"
definition NO_VALUE :: int where "NO_VALUE = - (2 ^ 31)"
definition NO_DISTANCE :: Distance where "NO_DISTANCE = NO_VALUE"

text \<open>\<^verbatim>\<open>struct Coord { int x; int y; }\<close>; the fields are written \<open>cx\<close> and \<open>cy\<close>.\<close>

record Coord =
  cx :: int
  cy :: int

definition NO_COORD :: Coord where "NO_COORD = \<lparr>cx = NO_VALUE, cy = NO_VALUE\<rparr>"

text \<open>
  \<^verbatim>\<open>struct Region\<close>, \<^verbatim>\<open>struct Station\<close> and \<^verbatim>\<open>struct Train\<close>. The fields \<^verbatim>\<open>id\<close> and
  \<^verbatim>\<open>name\<close> carry the initial of their struct, and the scratch fields \<^verbatim>\<open>d\<close>, \<^verbatim>\<open>de\<close>
  and \<^verbatim>\<open>pi\<close> of a station are \<open>sd\<close>, \<open>sde\<close> and \<open>spi\<close>.

  A \<^verbatim>\<open>Station*\<close> always points into a node of the \<^verbatim>\<open>stations\<close> map, and the nodes of a
  \<^verbatim>\<open>std::unordered_map\<close> never move, so a pointer is modelled by the key of the node it
  points to and \<^verbatim>\<open>nullptr\<close> by \<open>None\<close>. Following a pointer whose station has been
  erased is undefined in the source; the model reports it as the error \<open>Dangling\<close>. A
  station that is erased and added again under its old identifier is a new node in the
  source, and an old pointer to it stays dangling there, while the key of the model finds
  the new station: the model is the source on the states in which no identifier has been
  added again after \<^verbatim>\<open>remove_station\<close>, and all example networks below are built by
  \<^verbatim>\<open>add_station\<close> and \<^verbatim>\<open>add_train\<close> alone.
\<close>

record Region =
  rid :: RegionID
  rname :: Name
  coordinates :: "Coord list"
  parent :: RegionID
  subregions :: "RegionID set"

record Station =
  sid :: StationID
  sname :: Name
  location :: Coord
  region :: RegionID
  departures :: "Time \<rightharpoonup> TrainID set"
  stations_to :: "(Time \<times> Time \<times> StationID) list"
  color :: nat
  sd :: Distance
  sde :: Distance
  spi :: "StationID option"

record Train =
  tid :: TrainID
  stationtimes :: "(StationID \<times> Time) list"

record Datastructures =
  stations :: "StationID \<rightharpoonup> Station"
  regions :: "RegionID \<rightharpoonup> Region"
  trains :: "TrainID \<rightharpoonup> Train"

definition init :: Datastructures where
  "init = \<lparr>stations = Map.empty, regions = Map.empty, trains = Map.empty\<rparr>"

text \<open>
  What the source can do besides returning: \<^verbatim>\<open>std::unordered_map::at\<close> throws
  \<^verbatim>\<open>std::out_of_range\<close>, and dereferencing an erased station or the \<^verbatim>\<open>end()\<close> iterator
  is undefined behaviour.
\<close>

datatype error = OutOfRange | Dangling | EndDeref

section \<open>Entity registry\<close>

definition clear_all :: "Datastructures \<Rightarrow> Datastructures" where
  "clear_all s = s\<lparr>stations := Map.empty, regions := Map.empty\<rparr>"

definition clear_trains :: "Datastructures \<Rightarrow> Datastructures" where
  "clear_trains s = s\<lparr>trains := Map.empty\<rparr>"

definition add_station :: "Datastructures \<Rightarrow> StationID \<Rightarrow> Name \<Rightarrow> Coord \<Rightarrow> bool \<times> Datastructures" where
  "add_station s ident nm xy =
     (if stations s ident = None \<and> ident \<noteq> NO_STATION \<and> nm \<noteq> NO_NAME \<and> xy \<noteq> NO_COORD
      then (True, s\<lparr>stations := (stations s)(ident \<mapsto>
              \<lparr>sid = ident, sname = nm, location = xy, region = NO_REGION,
               departures = Map.empty, stations_to = [], color = 0,
               sd = 999999, sde = 999999, spi = None\<rparr>)\<rparr>)
      else (False, s))"

definition remove_station :: "Datastructures \<Rightarrow> StationID \<Rightarrow> bool \<times> Datastructures" where
  "remove_station s ident =
     (if stations s ident = None then (False, s)
      else (True, s\<lparr>stations := (stations s)(ident := None)\<rparr>))"

definition add_departure :: "Datastructures \<Rightarrow> StationID \<Rightarrow> TrainID \<Rightarrow> Time \<Rightarrow> bool \<times> Datastructures" where
  "add_departure s stationid trainid time =
     (case stations s stationid of
        None \<Rightarrow> (False, s)
      | Some st \<Rightarrow>
          (case departures st time of
             Some ts \<Rightarrow>
               (if trainid \<notin> ts
                then (True, s\<lparr>stations := (stations s)(stationid \<mapsto>
                        st\<lparr>departures := (departures st)(time \<mapsto> insert trainid ts)\<rparr>)\<rparr>)
                else (False, s))
           | None \<Rightarrow>
               (True, s\<lparr>stations := (stations s)(stationid \<mapsto>
                        st\<lparr>departures := (departures st)(time \<mapsto> {trainid})\<rparr>)\<rparr>)))"

definition add_region :: "Datastructures \<Rightarrow> RegionID \<Rightarrow> Name \<Rightarrow> Coord list \<Rightarrow> bool \<times> Datastructures" where
  "add_region s ident nm coords =
     (if regions s ident = None
      then (True, s\<lparr>regions := (regions s)(ident \<mapsto>
              \<lparr>rid = ident, rname = nm, coordinates = coords, parent = NO_REGION,
               subregions = {}\<rparr>)\<rparr>)
      else (False, s))"

text \<open>
  \<^verbatim>\<open>add_subregion_to_region\<close> writes through two iterators, which are the same node when
  \<open>ident = parentid\<close>: the second write reads the map the first one left.
\<close>

definition add_subregion_to_region :: "Datastructures \<Rightarrow> RegionID \<Rightarrow> RegionID \<Rightarrow> bool \<times> Datastructures" where
  "add_subregion_to_region s ident parentid =
     (case regions s ident of
        None \<Rightarrow> (False, s)
      | Some r \<Rightarrow>
          (case regions s parentid of
             None \<Rightarrow> (False, s)
           | Some p \<Rightarrow>
               if parent r \<noteq> NO_REGION then (False, s)
               else
                 (let regs1 = (regions s)(parentid \<mapsto> p\<lparr>subregions := insert ident (subregions p)\<rparr>)
                  in case regs1 ident of
                       None \<Rightarrow> (False, s)
                     | Some r1 \<Rightarrow> (True, s\<lparr>regions := regs1(ident \<mapsto> r1\<lparr>parent := parentid\<rparr>)\<rparr>))))"

definition add_station_to_region :: "Datastructures \<Rightarrow> StationID \<Rightarrow> RegionID \<Rightarrow> bool \<times> Datastructures" where
  "add_station_to_region s ident parentid =
     (case stations s ident of
        None \<Rightarrow> (False, s)
      | Some st \<Rightarrow>
          if regions s parentid = None \<or> region st \<noteq> NO_REGION then (False, s)
          else (True, s\<lparr>stations := (stations s)(ident \<mapsto> st\<lparr>region := parentid\<rparr>)\<rparr>))"

section \<open>Network builder\<close>

text \<open>
  The second loop of \<^verbatim>\<open>add_train\<close>: for every stop but the last, the departure is
  registered and the edge to the next stop is appended to \<^verbatim>\<open>stations_to\<close> of the stop.
  Both \<^verbatim>\<open>stations.at\<close> calls are branches of the model.
\<close>

fun add_train_edges :: "Datastructures \<Rightarrow> TrainID \<Rightarrow> (StationID \<times> Time) list \<Rightarrow> error + Datastructures" where
  "add_train_edges s trainid ((a, t) # (b, t') # rest) =
     (let s1 = snd (add_departure s a trainid t) in
      if stations s1 b = None then Inl OutOfRange
      else case stations s1 a of
             None \<Rightarrow> Inl OutOfRange
           | Some st \<Rightarrow>
               add_train_edges
                 (s1\<lparr>stations := (stations s1)(a \<mapsto> st\<lparr>stations_to := stations_to st @ [(t, t', b)]\<rparr>)\<rparr>)
                 trainid ((b, t') # rest))"
| "add_train_edges s trainid _ = Inr s"

definition add_train :: "Datastructures \<Rightarrow> TrainID \<Rightarrow> (StationID \<times> Time) list \<Rightarrow> error + bool \<times> Datastructures" where
  "add_train s trainid stops =
     (if trains s trainid \<noteq> None then Inr (False, s)
      else if list_ex (\<lambda>p. stations s (fst p) = None) stops then Inr (False, s)
      else case add_train_edges
                  (s\<lparr>trains := (trains s)(trainid \<mapsto> \<lparr>tid = trainid, stationtimes = stops\<rparr>)\<rparr>)
                  trainid stops of
             Inl e \<Rightarrow> Inl e
           | Inr s' \<Rightarrow> Inr (True, s'))"

section \<open>Region hierarchy\<close>

text \<open>
  \<^verbatim>\<open>common_parent_of_regions\<close>. An iterator into \<^verbatim>\<open>regions\<close> is modelled by the node it
  points to, \<open>None\<close> being \<^verbatim>\<open>end()\<close>; the map is not written during the walk. One pass
  of the \<^verbatim>\<open>while (true)\<close> loop moves each iterator to its parent when it has one
  (\<open>climb\<close>) and leaves when both are at a top (\<open>at_top\<close>). The loop reads
  \<^verbatim>\<open>it->second.parent\<close> before it compares \<^verbatim>\<open>it\<close> with \<^verbatim>\<open>end()\<close>, which is the error
  \<open>EndDeref\<close>; on a parent cycle it never leaves, which is the value \<open>None\<close>.
\<close>

definition climb :: "(RegionID \<rightharpoonup> Region) \<Rightarrow> Region \<Rightarrow> RegionID list \<Rightarrow> Region option \<times> RegionID list" where
  "climb regs r ps = (if parent r \<noteq> NO_REGION then (regs (parent r), ps @ [parent r]) else (Some r, ps))"

definition at_top :: "Region option \<Rightarrow> bool" where
  "at_top it = (case it of None \<Rightarrow> True | Some r \<Rightarrow> parent r = NO_REGION)"

partial_function (option) cpr_loop ::
  "(RegionID \<rightharpoonup> Region) \<Rightarrow> Region option \<times> RegionID list \<Rightarrow> Region option \<times> RegionID list
     \<Rightarrow> (error + RegionID list \<times> RegionID list) option" where
  "cpr_loop regs a b =
     (case fst a of
        None \<Rightarrow> Some (Inl EndDeref)
      | Some r1 \<Rightarrow>
          (case fst b of
             None \<Rightarrow> Some (Inl EndDeref)
           | Some r2 \<Rightarrow>
               if at_top (fst (climb regs r1 (snd a))) \<and> at_top (fst (climb regs r2 (snd b)))
               then Some (Inr (snd (climb regs r1 (snd a)), snd (climb regs r2 (snd b))))
               else cpr_loop regs (climb regs r1 (snd a)) (climb regs r2 (snd b))))"

definition common_parent_of_regions :: "Datastructures \<Rightarrow> RegionID \<Rightarrow> RegionID \<Rightarrow> (error + RegionID) option" where
  "common_parent_of_regions s id1 id2 =
     (case regions s id1 of
        None \<Rightarrow> Some (Inr NO_REGION)
      | Some r1 \<Rightarrow>
          (case regions s id2 of
             None \<Rightarrow> Some (Inr NO_REGION)
           | Some r2 \<Rightarrow>
               if parent r1 = parent r2 then Some (Inr (parent r1))
               else
                 (case cpr_loop (regions s) (Some r1, []) (Some r2, []) of
                    None \<Rightarrow> None
                  | Some (Inl e) \<Rightarrow> Some (Inl e)
                  | Some (Inr (p1, p2)) \<Rightarrow>
                      if p1 = [] \<or> p2 = [] then Some (Inr NO_REGION)
                      else (case find (\<lambda>r. r \<in> set p2) p1 of
                              Some r \<Rightarrow> Some (Inr r)
                            | None \<Rightarrow> Some (Inr NO_REGION)))))"

section \<open>Route engine: distances, stores and queues\<close>

text \<open>
  \<^verbatim>\<open>distance_between_points\<close> returns \<^verbatim>\<open>sqrt(pow(a.x - b.x, 2) + pow(a.y - b.y, 2))\<close>
  converted to \<^verbatim>\<open>int\<close>, that is, truncated. \<open>isqrt\<close> is the integer square root, found
  by searching downwards; it is the truncated real square root
  (\<open>distance_between_points_floor\<close> below). The source computes in \<^verbatim>\<open>double\<close>, which is
  exact as long as the sum of the squares stays below \<open>2 ^ 52\<close>.
\<close>

primrec sqrt_upto :: "nat \<Rightarrow> nat \<Rightarrow> nat" where
  "sqrt_upto n 0 = 0"
| "sqrt_upto n (Suc k) = (if Suc k * Suc k \<le> n then Suc k else sqrt_upto n k)"

definition isqrt :: "nat \<Rightarrow> nat" where
  "isqrt n = sqrt_upto n n"

definition distance_between_points :: "Coord \<Rightarrow> Coord \<Rightarrow> Distance" where
  "distance_between_points a b = int (isqrt (nat ((cx a - cx b)\<^sup>2 + (cy a - cy b)\<^sup>2)))"

type_synonym store = "StationID \<rightharpoonup> Station"

text \<open>
  \<^verbatim>\<open>std::set<std::pair<K, Station*>>\<close>: a list kept in the order of the set, which compares
  the keys first and the pointers second. The order of two pointers is the order of the
  addresses of the two map nodes, which the allocator chose; it is the parameter \<open>addr\<close>
  of the two searches that use such a set. Two entries that are not below each other are
  the same entry for the set.
\<close>

definition pq_less :: "(StationID \<Rightarrow> nat) \<Rightarrow> ('k :: linorder) \<times> StationID \<Rightarrow> 'k \<times> StationID \<Rightarrow> bool" where
  "pq_less addr a b = (fst a < fst b \<or> (\<not> fst b < fst a \<and> addr (snd a) < addr (snd b)))"

fun pq_insert :: "(StationID \<Rightarrow> nat) \<Rightarrow> ('k :: linorder) \<times> StationID \<Rightarrow> ('k \<times> StationID) list \<Rightarrow> ('k \<times> StationID) list" where
  "pq_insert addr a [] = [a]"
| "pq_insert addr a (b # bs) =
     (if pq_less addr a b then a # b # bs
      else if pq_less addr b a then b # pq_insert addr a bs
      else b # bs)"

fun pq_find :: "(StationID \<Rightarrow> nat) \<Rightarrow> ('k :: linorder) \<times> StationID \<Rightarrow> ('k \<times> StationID) list \<Rightarrow> bool" where
  "pq_find addr a [] = False"
| "pq_find addr a (b # bs) =
     (if pq_less addr a b then False
      else if pq_less addr b a then pq_find addr a bs
      else True)"

fun pq_erase :: "(StationID \<Rightarrow> nat) \<Rightarrow> ('k :: linorder) \<times> StationID \<Rightarrow> ('k \<times> StationID) list \<Rightarrow> ('k \<times> StationID) list" where
  "pq_erase addr a [] = []"
| "pq_erase addr a (b # bs) =
     (if pq_less addr a b then b # bs
      else if pq_less addr b a then b # pq_erase addr a bs
      else bs)"

text \<open>
  The walk along the \<^verbatim>\<open>pi\<close> pointers that ends every route query:
  \<^verbatim>\<open>while (true) { if (i == nullptr) return {}; push; if (i->id == fromid) break; i = i->pi; }\<close>.
  What is pushed differs between the queries: \<open>f\<close> for a station on the way and
  \<open>f_last\<close> for the one the walk stops at, both given the pointer and the station.
  \<open>Gone\<close> is the \<^verbatim>\<open>return {}\<close>, \<open>Broke\<close> the \<^verbatim>\<open>break\<close>.
\<close>

datatype back_state = Walking | Gone | Broke | Lost

record 'a trail =
  b_at :: "StationID option"
  b_acc :: "'a list"
  b_state :: back_state

definition back_step :: "store \<Rightarrow> StationID \<Rightarrow> (StationID \<Rightarrow> Station \<Rightarrow> 'a) \<Rightarrow> (StationID \<Rightarrow> Station \<Rightarrow> 'a)
    \<Rightarrow> 'a trail \<Rightarrow> 'a trail" where
  "back_step st stop_id f_last f b =
     (case b_at b of
        None \<Rightarrow> b\<lparr>b_state := Gone\<rparr>
      | Some p \<Rightarrow>
          (case st p of
             None \<Rightarrow> b\<lparr>b_state := Lost\<rparr>
           | Some sp \<Rightarrow>
               if sid sp = stop_id then b\<lparr>b_acc := b_acc b @ [f_last p sp], b_state := Broke\<rparr>
               else b\<lparr>b_at := spi sp, b_acc := b_acc b @ [f p sp]\<rparr>))"

definition trace_back :: "store \<Rightarrow> StationID \<Rightarrow> (StationID \<Rightarrow> Station \<Rightarrow> 'a) \<Rightarrow> (StationID \<Rightarrow> Station \<Rightarrow> 'a)
    \<Rightarrow> StationID option \<Rightarrow> 'a list \<Rightarrow> 'a trail option" where
  "trace_back st stop_id f_last f i acc =
     while_option (\<lambda>b. b_state b = Walking) (back_step st stop_id f_last f)
       \<lparr>b_at = i, b_acc = acc, b_state = Walking\<rparr>"

text \<open>
  The result of a route query: \<open>None\<close> when a loop of the query never ends, \<open>Inl\<close> when
  the query follows a pointer to an erased station, and otherwise the vector it returns
  together with the stations it leaves, whose scratch fields it has written. The queries
  read and write nothing but the \<^verbatim>\<open>stations\<close> map: the searches are functions of the
  stations, and \<open>put\<close> writes their stations back into the state.
\<close>

type_synonym 'a found = "(error + 'a list \<times> store) option"

type_synonym 'a answer = "(error + 'a list \<times> Datastructures) option"

definition put :: "Datastructures \<Rightarrow> 'a found \<Rightarrow> 'a answer" where
  "put s r = map_option (map_sum id (\<lambda>x. (fst x, s\<lparr>stations := snd x\<rparr>))) r"

definition finish :: "store \<Rightarrow> 'a trail option \<Rightarrow> 'a found" where
  "finish st r =
     (case r of
        None \<Rightarrow> None
      | Some b \<Rightarrow>
          (case b_state b of
             Lost \<Rightarrow> Some (Inl Dangling)
           | Gone \<Rightarrow> Some (Inr ([], st))
           | _ \<Rightarrow> Some (Inr (rev (b_acc b), st))))"

section \<open>Route engine: \<^verbatim>\<open>route_any\<close> and \<^verbatim>\<open>route_least_stations\<close>\<close>

text \<open>
  The state of the two breadth-first loops: the stations, the \<^verbatim>\<open>std::queue\<close>, the flag
  \<^verbatim>\<open>found_station\<close>, and whether a pointer to an erased station was followed.
\<close>

record walk =
  w_store :: store
  w_queue :: "(Distance \<times> StationID) list"
  w_found :: bool
  w_fail :: bool

definition walk_running :: "walk \<Rightarrow> bool" where
  "walk_running w = (w_queue w \<noteq> [] \<and> \<not> w_found w \<and> \<not> w_fail w)"

text \<open>
  The \<^verbatim>\<open>for\<close> loop over the edges of \<open>u\<close> in \<^verbatim>\<open>route_any\<close>. \<open>any_visit\<close> is its first
  \<^verbatim>\<open>if\<close>: a station \<open>v\<close> without a predecessor gets its distance and the predecessor \<open>u\<close>
  and enters the queue.
\<close>

definition any_visit :: "StationID \<Rightarrow> Station \<Rightarrow> StationID \<Rightarrow> Station \<Rightarrow> walk \<Rightarrow> walk" where
  "any_visit u su v sv w =
     (if spi sv = None
      then w\<lparr>w_store := (w_store w)(v \<mapsto>
                sv\<lparr>sd := sd su + distance_between_points (location su) (location sv),
                   spi := Some u\<rparr>),
             w_queue := w_queue w @
                [(sd su + distance_between_points (location su) (location sv), v)]\<rparr>
      else w)"

fun any_edges :: "StationID \<Rightarrow> StationID \<Rightarrow> (Time \<times> Time \<times> StationID) list \<Rightarrow> walk \<Rightarrow> walk" where
  "any_edges toid u [] w = w"
| "any_edges toid u ((dep, arr, v) # es) w =
     (case w_store w u of
        None \<Rightarrow> w\<lparr>w_fail := True\<rparr>
      | Some su \<Rightarrow>
          (case w_store w v of
             None \<Rightarrow> w\<lparr>w_fail := True\<rparr>
           | Some sv \<Rightarrow>
               if sid sv = toid then (any_visit u su v sv w)\<lparr>w_found := True\<rparr>
               else any_edges toid u es (any_visit u su v sv w)))"

definition any_step :: "StationID \<Rightarrow> walk \<Rightarrow> walk" where
  "any_step toid w =
     (case w_queue w of
        [] \<Rightarrow> w
      | q # rest \<Rightarrow>
          (case w_store w (snd q) of
             None \<Rightarrow> w\<lparr>w_queue := rest, w_fail := True\<rparr>
           | Some su \<Rightarrow> any_edges toid (snd q) (stations_to su) (w\<lparr>w_queue := rest\<rparr>)))"

definition reset_any :: "store \<Rightarrow> store" where
  "reset_any st = (\<lambda>k. map_option (\<lambda>x. x\<lparr>sd := 999999, spi := None\<rparr>) (st k))"

text \<open>
  \<^verbatim>\<open>route_any\<close> after its loop over all stations: \<open>st\<close> are the stations that loop has reset.
\<close>

definition any_search :: "store \<Rightarrow> StationID \<Rightarrow> StationID \<Rightarrow> (StationID \<times> Distance) found" where
  "any_search st fromid toid =
     (case st fromid of
        None \<Rightarrow> Some (Inl OutOfRange)
      | Some s0 \<Rightarrow>
          (case while_option walk_running (any_step toid)
                  \<lparr>w_store = st(fromid \<mapsto> s0\<lparr>sd := 0\<rparr>),
                   w_queue = [(0, fromid)], w_found = False, w_fail = False\<rparr> of
             None \<Rightarrow> None
           | Some w \<Rightarrow>
               if w_fail w then Some (Inl Dangling)
               else
                 (case w_store w toid of
                    None \<Rightarrow> Some (Inl Dangling)
                  | Some sg \<Rightarrow>
                      finish (w_store w)
                        (trace_back (w_store w) fromid (\<lambda>p x. (sid x, sd x)) (\<lambda>p x. (sid x, sd x))
                           (spi sg) [(sid sg, sd sg)]))))"

definition route_any :: "Datastructures \<Rightarrow> StationID \<Rightarrow> StationID \<Rightarrow> (StationID \<times> Distance) answer" where
  "route_any s fromid toid =
     (if stations s fromid = None \<or> stations s toid = None
      then Some (Inr ([(NO_STATION, NO_DISTANCE)], s))
      else if fromid = toid then Some (Inr ([(fromid, 0)], s))
      else put s (any_search (reset_any (stations s)) fromid toid))"

text \<open>
  The same loop in \<^verbatim>\<open>route_least_stations\<close>: \<^verbatim>\<open>d\<close> counts the stations and \<^verbatim>\<open>de\<close> adds up
  the distances.
\<close>

definition least_visit :: "StationID \<Rightarrow> Station \<Rightarrow> StationID \<Rightarrow> Station \<Rightarrow> walk \<Rightarrow> walk" where
  "least_visit u su v sv w =
     (if spi sv = None
      then w\<lparr>w_store := (w_store w)(v \<mapsto>
                sv\<lparr>sd := sd su + 1,
                   sde := sde su + distance_between_points (location su) (location sv),
                   spi := Some u\<rparr>),
             w_queue := w_queue w @ [(sd su + 1, v)]\<rparr>
      else w)"

fun least_edges :: "StationID \<Rightarrow> StationID \<Rightarrow> (Time \<times> Time \<times> StationID) list \<Rightarrow> walk \<Rightarrow> walk" where
  "least_edges toid u [] w = w"
| "least_edges toid u ((dep, arr, v) # es) w =
     (case w_store w u of
        None \<Rightarrow> w\<lparr>w_fail := True\<rparr>
      | Some su \<Rightarrow>
          (case w_store w v of
             None \<Rightarrow> w\<lparr>w_fail := True\<rparr>
           | Some sv \<Rightarrow>
               if sid sv = toid then (least_visit u su v sv w)\<lparr>w_found := True\<rparr>
               else least_edges toid u es (least_visit u su v sv w)))"

definition least_step :: "StationID \<Rightarrow> walk \<Rightarrow> walk" where
  "least_step toid w =
     (case w_queue w of
        [] \<Rightarrow> w
      | q # rest \<Rightarrow>
          (case w_store w (snd q) of
             None \<Rightarrow> w\<lparr>w_queue := rest, w_fail := True\<rparr>
           | Some su \<Rightarrow> least_edges toid (snd q) (stations_to su) (w\<lparr>w_queue := rest\<rparr>)))"

definition reset_least :: "store \<Rightarrow> store" where
  "reset_least st = (\<lambda>k. map_option (\<lambda>x. x\<lparr>sd := 999999, sde := 999999, spi := None\<rparr>) (st k))"

definition least_search :: "store \<Rightarrow> StationID \<Rightarrow> StationID \<Rightarrow> (StationID \<times> Distance) found" where
  "least_search st fromid toid =
     (case st fromid of
        None \<Rightarrow> Some (Inl OutOfRange)
      | Some s0 \<Rightarrow>
          (case while_option walk_running (least_step toid)
                  \<lparr>w_store = st(fromid \<mapsto> s0\<lparr>sd := 0, sde := 0\<rparr>),
                   w_queue = [(0, fromid)], w_found = False, w_fail = False\<rparr> of
             None \<Rightarrow> None
           | Some w \<Rightarrow>
               if w_fail w then Some (Inl Dangling)
               else
                 (case w_store w toid of
                    None \<Rightarrow> Some (Inl Dangling)
                  | Some sg \<Rightarrow>
                      finish (w_store w)
                        (trace_back (w_store w) fromid (\<lambda>p x. (sid x, 0)) (\<lambda>p x. (sid x, sde x))
                           (spi sg) [(sid sg, sde sg)]))))"

definition route_least_stations :: "Datastructures \<Rightarrow> StationID \<Rightarrow> StationID \<Rightarrow> (StationID \<times> Distance) answer" where
  "route_least_stations s fromid toid =
     (if stations s fromid = None \<or> stations s toid = None
      then Some (Inr ([(NO_STATION, NO_DISTANCE)], s))
      else if fromid = toid then Some (Inr ([(fromid, 0)], s))
      else put s (least_search (reset_least (stations s)) fromid toid))"

section \<open>Route engine: \<^verbatim>\<open>route_with_cycle\<close>\<close>

text \<open>
  The state of the depth-first loop: the stations, the \<^verbatim>\<open>std::stack\<close> with its top first,
  the pointers \<^verbatim>\<open>g\<close> and \<^verbatim>\<open>cycled\<close>, and the flag \<^verbatim>\<open>found_cycle\<close>.
\<close>

record dfs =
  c_store :: store
  c_stack :: "StationID list"
  c_g :: "StationID option"
  c_cycled :: "StationID option"
  c_found :: bool
  c_fail :: bool

definition cycle_running :: "dfs \<Rightarrow> bool" where
  "cycle_running c = (c_stack c \<noteq> [] \<and> \<not> c_found c \<and> \<not> c_fail c)"

fun cycle_edges :: "StationID \<Rightarrow> (Time \<times> Time \<times> StationID) list \<Rightarrow> dfs \<Rightarrow> dfs" where
  "cycle_edges u [] c = c"
| "cycle_edges u ((dep, arr, v) # es) c =
     (case c_store c v of
        None \<Rightarrow> c\<lparr>c_fail := True\<rparr>
      | Some sv \<Rightarrow>
          if color sv = 0
          then cycle_edges u es
                 (c\<lparr>c_store := (c_store c)(v \<mapsto> sv\<lparr>spi := Some u\<rparr>), c_stack := v # c_stack c\<rparr>)
          else if color sv = 1
          then c\<lparr>c_g := Some u, c_cycled := Some v, c_found := True\<rparr>
          else cycle_edges u es c)"

definition cycle_step :: "dfs \<Rightarrow> dfs" where
  "cycle_step c =
     (case c_stack c of
        [] \<Rightarrow> c
      | u # rest \<Rightarrow>
          (case c_store c u of
             None \<Rightarrow> c\<lparr>c_stack := rest, c_fail := True\<rparr>
           | Some su \<Rightarrow>
               if color su = 0
               then cycle_edges u (stations_to su)
                      (c\<lparr>c_store := (c_store c)(u \<mapsto> su\<lparr>color := 1\<rparr>), c_stack := u # rest\<rparr>)
               else c\<lparr>c_stack := rest\<rparr>))"

definition reset_cycle :: "store \<Rightarrow> store" where
  "reset_cycle st = (\<lambda>k. map_option (\<lambda>x. x\<lparr>color := 0, spi := None\<rparr>) (st k))"

definition cycle_search :: "store \<Rightarrow> StationID \<Rightarrow> StationID found" where
  "cycle_search st fromid =
     (case while_option cycle_running cycle_step
             \<lparr>c_store = st, c_stack = [fromid], c_g = None, c_cycled = None, c_found = False,
              c_fail = False\<rparr> of
        None \<Rightarrow> None
      | Some c \<Rightarrow>
          if c_fail c then Some (Inl Dangling)
          else if \<not> c_found c then Some (Inr ([], c_store c))
          else
            (case c_cycled c of
               None \<Rightarrow> Some (Inl Dangling)
             | Some cyc \<Rightarrow>
                 (case c_g c of
                    None \<Rightarrow> Some (Inl Dangling)
                  | Some g \<Rightarrow>
                      (case c_store c cyc of
                         None \<Rightarrow> Some (Inl Dangling)
                       | Some scy \<Rightarrow>
                           (case c_store c g of
                              None \<Rightarrow> Some (Inl Dangling)
                            | Some sg \<Rightarrow>
                                (case c_store c fromid of
                                   None \<Rightarrow> Some (Inl OutOfRange)
                                 | Some ss \<Rightarrow>
                                     finish (c_store c)
                                       (trace_back (c_store c) (sid ss) (\<lambda>p x. sid x) (\<lambda>p x. sid x)
                                          (spi sg) [sid scy, sid sg])))))))"

definition route_with_cycle :: "Datastructures \<Rightarrow> StationID \<Rightarrow> StationID answer" where
  "route_with_cycle s fromid =
     (if stations s fromid = None then Some (Inr ([NO_STATION], s))
      else put s (cycle_search (reset_cycle (stations s)) fromid))"

section \<open>Route engine: \<^verbatim>\<open>route_shortest_distance\<close>\<close>

text \<open>
  The state of the two loops over a \<^verbatim>\<open>std::set\<close>: the stations, the set, whether the loop
  has left through its \<^verbatim>\<open>break\<close>, and whether an erased station was followed.
\<close>

record 'k pq =
  q_store :: store
  q_set :: "('k \<times> StationID) list"
  q_break :: bool
  q_fail :: bool

definition pq_running :: "'k pq \<Rightarrow> bool" where
  "pq_running p = (q_set p \<noteq> [] \<and> \<not> q_break p \<and> \<not> q_fail p)"

definition relax_astar :: "store \<Rightarrow> StationID \<Rightarrow> StationID \<Rightarrow> StationID \<Rightarrow> store option" where
  "relax_astar st u v g =
     (case st u of
        None \<Rightarrow> None
      | Some su \<Rightarrow>
          (case st v of
             None \<Rightarrow> None
           | Some sv \<Rightarrow>
               (case st g of
                  None \<Rightarrow> None
                | Some sg \<Rightarrow>
                    if sd sv > sd su + distance_between_points (location su) (location sv)
                    then Some (st(v \<mapsto>
                           sv\<lparr>sd := sd su + distance_between_points (location su) (location sv),
                              sde := sd su + distance_between_points (location su) (location sv)
                                       + distance_between_points (location sv) (location sg),
                              spi := Some u\<rparr>))
                    else Some st)))"

fun astar_edges :: "(StationID \<Rightarrow> nat) \<Rightarrow> StationID \<Rightarrow> StationID \<Rightarrow> (Time \<times> Time \<times> StationID) list
    \<Rightarrow> Distance pq \<Rightarrow> Distance pq" where
  "astar_edges addr g u [] p = p"
| "astar_edges addr g u ((dep, arr, v) # es) p =
     (case q_store p v of
        None \<Rightarrow> p\<lparr>q_fail := True\<rparr>
      | Some sv \<Rightarrow>
          (case relax_astar (q_store p) u v g of
             None \<Rightarrow> p\<lparr>q_fail := True\<rparr>
           | Some st1 \<Rightarrow>
               (case st1 v of
                  None \<Rightarrow> p\<lparr>q_fail := True\<rparr>
                | Some sv1 \<Rightarrow>
                    if color sv1 = 0
                    then astar_edges addr g u es
                           (p\<lparr>q_store := st1(v \<mapsto> sv1\<lparr>color := 1\<rparr>),
                              q_set := pq_insert addr (sde sv1, v) (q_set p)\<rparr>)
                    else if sde sv > sde sv1 \<and> pq_find addr (sde sv1, v) (q_set p)
                    then astar_edges addr g u es
                           (p\<lparr>q_store := st1,
                              q_set := pq_insert addr (sde sv1, v) (pq_erase addr (sde sv1, v) (q_set p))\<rparr>)
                    else astar_edges addr g u es (p\<lparr>q_store := st1\<rparr>))))"

definition astar_step :: "(StationID \<Rightarrow> nat) \<Rightarrow> StationID \<Rightarrow> Distance pq \<Rightarrow> Distance pq" where
  "astar_step addr g p =
     (case q_set p of
        [] \<Rightarrow> p
      | q # rest \<Rightarrow>
          (case q_store p (snd q) of
             None \<Rightarrow> p\<lparr>q_set := rest, q_fail := True\<rparr>
           | Some su \<Rightarrow>
               (case q_store p g of
                  None \<Rightarrow> p\<lparr>q_set := rest, q_fail := True\<rparr>
                | Some sg \<Rightarrow>
                    if sid su = sid sg then p\<lparr>q_set := rest, q_break := True\<rparr>
                    else astar_edges addr g (snd q) (stations_to su) (p\<lparr>q_set := rest\<rparr>))))"

definition reset_all :: "store \<Rightarrow> store" where
  "reset_all st = (\<lambda>k. map_option (\<lambda>x. x\<lparr>color := 0, sd := 999999, sde := 999999, spi := None\<rparr>) (st k))"

definition astar_search :: "(StationID \<Rightarrow> nat) \<Rightarrow> store \<Rightarrow> StationID \<Rightarrow> StationID \<Rightarrow> (StationID \<times> Distance) found" where
  "astar_search addr st fromid toid =
     (case st fromid of
        None \<Rightarrow> Some (Inl OutOfRange)
      | Some s0 \<Rightarrow>
          (case while_option pq_running (astar_step addr toid)
                  \<lparr>q_store = st(fromid \<mapsto> s0\<lparr>sd := 0\<rparr>),
                   q_set = [(0, fromid)], q_break = False, q_fail = False\<rparr> of
             None \<Rightarrow> None
           | Some p \<Rightarrow>
               if q_fail p then Some (Inl Dangling)
               else
                 (case q_store p toid of
                    None \<Rightarrow> Some (Inl Dangling)
                  | Some sg \<Rightarrow>
                      finish (q_store p)
                        (trace_back (q_store p) fromid (\<lambda>p x. (sid x, sd x)) (\<lambda>p x. (sid x, sd x))
                           (spi sg) [(sid sg, sd sg)]))))"

definition route_shortest_distance ::
  "(StationID \<Rightarrow> nat) \<Rightarrow> Datastructures \<Rightarrow> StationID \<Rightarrow> StationID \<Rightarrow> (StationID \<times> Distance) answer" where
  "route_shortest_distance addr s fromid toid =
     (if stations s fromid = None \<or> stations s toid = None
      then Some (Inr ([(NO_STATION, NO_DISTANCE)], s))
      else if fromid = toid then Some (Inr ([(fromid, 0)], s))
      else put s (astar_search addr (reset_all (stations s)) fromid toid))"

section \<open>Route engine: \<^verbatim>\<open>route_earliest_arrival\<close>\<close>

text \<open>
  \<^verbatim>\<open>relax_dijkstra\<close> compares the \<^verbatim>\<open>int\<close> field \<^verbatim>\<open>d\<close> with \<^verbatim>\<open>unsigned short\<close> times, which
  are promoted to \<^verbatim>\<open>int\<close> (\<open>uint\<close>). It writes \<^verbatim>\<open>u->d\<close> first and \<^verbatim>\<open>v->d\<close>, \<^verbatim>\<open>v->pi\<close> after.
\<close>

definition relax_dijkstra :: "store \<Rightarrow> StationID \<Rightarrow> StationID \<Rightarrow> Time \<Rightarrow> Time \<Rightarrow> store option" where
  "relax_dijkstra st u v u_depart at_v =
     (case st u of
        None \<Rightarrow> None
      | Some su \<Rightarrow>
          (case st v of
             None \<Rightarrow> None
           | Some sv \<Rightarrow>
               if sd sv > uint at_v \<and> sd su < uint at_v \<and> sd su \<le> uint u_depart \<and> u_depart < at_v
               then (case (st(u \<mapsto> su\<lparr>sd := uint u_depart\<rparr>)) v of
                       None \<Rightarrow> None
                     | Some sv1 \<Rightarrow>
                         Some ((st(u \<mapsto> su\<lparr>sd := uint u_depart\<rparr>))
                                  (v \<mapsto> sv1\<lparr>sd := uint at_v, spi := Some u\<rparr>)))
               else Some st))"

text \<open>
  The set of this loop holds \<^verbatim>\<open>std::pair<Time, Station*>\<close>: an \<^verbatim>\<open>int\<close> distance that
  enters it is converted to \<^verbatim>\<open>unsigned short\<close> (\<open>word_of_int\<close>), and so is the
  distance the loop keeps in \<^verbatim>\<open>Time d\<close> before it relaxes.
\<close>

fun dijkstra_edges :: "(StationID \<Rightarrow> nat) \<Rightarrow> StationID \<Rightarrow> (Time \<times> Time \<times> StationID) list
    \<Rightarrow> Time pq \<Rightarrow> Time pq" where
  "dijkstra_edges addr u [] p = p"
| "dijkstra_edges addr u ((dep, arr, v) # es) p =
     (case q_store p v of
        None \<Rightarrow> p\<lparr>q_fail := True\<rparr>
      | Some sv \<Rightarrow>
          (case relax_dijkstra (q_store p) u v dep arr of
             None \<Rightarrow> p\<lparr>q_fail := True\<rparr>
           | Some st1 \<Rightarrow>
               (case st1 v of
                  None \<Rightarrow> p\<lparr>q_fail := True\<rparr>
                | Some sv1 \<Rightarrow>
                    if color sv1 = 0
                    then dijkstra_edges addr u es
                           (p\<lparr>q_store := st1(v \<mapsto> sv1\<lparr>color := 1\<rparr>),
                              q_set := pq_insert addr (word_of_int (sd sv1), v) (q_set p)\<rparr>)
                    else if uint (word_of_int (sd sv) :: Time) > sd sv1
                            \<and> pq_find addr (word_of_int (sd sv1), v) (q_set p)
                    then dijkstra_edges addr u es
                           (p\<lparr>q_store := st1,
                              q_set := pq_insert addr (word_of_int (sd sv1), v)
                                         (pq_erase addr (word_of_int (sd sv1), v) (q_set p))\<rparr>)
                    else dijkstra_edges addr u es (p\<lparr>q_store := st1\<rparr>))))"

definition dijkstra_step :: "(StationID \<Rightarrow> nat) \<Rightarrow> StationID \<Rightarrow> Time pq \<Rightarrow> Time pq" where
  "dijkstra_step addr g p =
     (case q_set p of
        [] \<Rightarrow> p
      | q # rest \<Rightarrow>
          (case q_store p (snd q) of
             None \<Rightarrow> p\<lparr>q_set := rest, q_fail := True\<rparr>
           | Some su \<Rightarrow>
               (case q_store p g of
                  None \<Rightarrow> p\<lparr>q_set := rest, q_fail := True\<rparr>
                | Some sg \<Rightarrow>
                    if sid su = sid sg then p\<lparr>q_set := rest, q_break := True\<rparr>
                    else dijkstra_edges addr (snd q) (stations_to su) (p\<lparr>q_set := rest\<rparr>))))"

text \<open>
  The second pass of \<^verbatim>\<open>route_earliest_arrival\<close>, over the path from the start to the goal.
  The inner loop looks at the edges of \<open>cur\<close> that lead to \<open>nxt\<close> and carries the stations
  and \<^verbatim>\<open>tracker\<close>; the outer loop hands \<^verbatim>\<open>tracker\<close> on as \<^verbatim>\<open>prev_arrival\<close>.
\<close>

fun departure_edges :: "StationID \<Rightarrow> StationID \<Rightarrow> Time \<Rightarrow> (Time \<times> Time \<times> StationID) list
    \<Rightarrow> store \<times> Time \<Rightarrow> (store \<times> Time) option" where
  "departure_edges cur nxt prev_arrival [] x = Some x"
| "departure_edges cur nxt prev_arrival ((dep, arr, v) # es) x =
     (case fst x v of
        None \<Rightarrow> None
      | Some sv \<Rightarrow>
          (case fst x cur of
             None \<Rightarrow> None
           | Some sc \<Rightarrow>
               (case fst x nxt of
                  None \<Rightarrow> None
                | Some sn \<Rightarrow>
                    if sid sv = sid sn \<and> uint dep < sd sc \<and> dep \<ge> prev_arrival \<and> uint arr \<le> sd sn
                    then departure_edges cur nxt prev_arrival es
                           ((fst x)(cur \<mapsto> sc\<lparr>sd := uint dep\<rparr>), arr)
                    else departure_edges cur nxt prev_arrival es x)))"

fun departures_pass :: "StationID list \<Rightarrow> Time \<Rightarrow> store \<times> Time \<Rightarrow> (store \<times> Time) option" where
  "departures_pass (cur # nxt # rest) prev_arrival x =
     (case fst x cur of
        None \<Rightarrow> None
      | Some sc \<Rightarrow>
          (case departure_edges cur nxt prev_arrival (stations_to sc) x of
             None \<Rightarrow> None
           | Some x1 \<Rightarrow> departures_pass (nxt # rest) (snd x1) x1))"
| "departures_pass path prev_arrival x = Some x"

fun path_times :: "store \<Rightarrow> StationID list \<Rightarrow> (StationID \<times> Time) list option" where
  "path_times st [] = Some []"
| "path_times st (p # ps) =
     (case st p of
        None \<Rightarrow> None
      | Some sp \<Rightarrow>
          (case path_times st ps of
             None \<Rightarrow> None
           | Some r \<Rightarrow> Some ((sid sp, word_of_int (sd sp)) # r)))"

definition reset_earliest :: "store \<Rightarrow> store" where
  "reset_earliest st = (\<lambda>k. map_option (\<lambda>x. x\<lparr>color := 0, sd := 999999, spi := None\<rparr>) (st k))"

text \<open>
  The end of \<^verbatim>\<open>route_earliest_arrival\<close>: the walk back from the goal collects the
  pointers of the path, the second pass runs over the path from the start, and the result
  pairs each station with its \<^verbatim>\<open>d\<close>, converted to \<^verbatim>\<open>Time\<close>.
\<close>

definition earliest_finish :: "store \<Rightarrow> StationID \<Rightarrow> StationID \<Rightarrow> StationID option \<Rightarrow> Time
    \<Rightarrow> (StationID \<times> Time) found" where
  "earliest_finish st fromid toid i starttime =
     (case trace_back st fromid (\<lambda>i x. i) (\<lambda>i x. i) i [toid] of
        None \<Rightarrow> None
      | Some b \<Rightarrow>
          (case b_state b of
             Lost \<Rightarrow> Some (Inl Dangling)
           | Gone \<Rightarrow> Some (Inr ([], st))
           | _ \<Rightarrow>
               (case departures_pass (rev (b_acc b)) starttime (st, 2500) of
                  None \<Rightarrow> Some (Inl Dangling)
                | Some x \<Rightarrow>
                    (case path_times (fst x) (rev (b_acc b)) of
                       None \<Rightarrow> Some (Inl Dangling)
                     | Some r \<Rightarrow> Some (Inr (r, fst x))))))"

definition dijkstra_search ::
  "(StationID \<Rightarrow> nat) \<Rightarrow> store \<Rightarrow> StationID \<Rightarrow> StationID \<Rightarrow> Time \<Rightarrow> (StationID \<times> Time) found" where
  "dijkstra_search addr st fromid toid starttime =
     (case st fromid of
        None \<Rightarrow> Some (Inl OutOfRange)
      | Some s0 \<Rightarrow>
          (case while_option pq_running (dijkstra_step addr toid)
                  \<lparr>q_store = st(fromid \<mapsto> s0\<lparr>sd := uint starttime\<rparr>),
                   q_set = [(0, fromid)], q_break = False, q_fail = False\<rparr> of
             None \<Rightarrow> None
           | Some p \<Rightarrow>
               if q_fail p then Some (Inl Dangling)
               else
                 (case q_store p toid of
                    None \<Rightarrow> Some (Inl Dangling)
                  | Some sg \<Rightarrow> earliest_finish (q_store p) fromid toid (spi sg) starttime)))"

definition route_earliest_arrival ::
  "(StationID \<Rightarrow> nat) \<Rightarrow> Datastructures \<Rightarrow> StationID \<Rightarrow> StationID \<Rightarrow> Time \<Rightarrow> (StationID \<times> Time) answer" where
  "route_earliest_arrival addr s fromid toid starttime =
     (if stations s fromid = None \<or> stations s toid = None
      then Some (Inr ([(NO_STATION, NO_TIME)], s))
      else if fromid = toid then Some (Inr ([(fromid, starttime)], s))
      else put s (dijkstra_search addr (reset_earliest (stations s)) fromid toid starttime))"

section \<open>The edge invariant\<close>

text \<open>An edge \<open>(departure, arrival, destination)\<close> is ordered when it does not arrive before it leaves.\<close>

definition edge_ordered :: "Time \<times> Time \<times> StationID \<Rightarrow> bool" where
  "edge_ordered e = (fst e \<le> fst (snd e))"

definition edges_ordered :: "Datastructures \<Rightarrow> bool" where
  "edges_ordered s = (\<forall>k st. stations s k = Some st \<longrightarrow> list_all edge_ordered (stations_to st))"

section \<open>Example states\<close>

text \<open>Two stations, built by the operations themselves.\<close>

definition two_stop :: Datastructures where
  "two_stop = snd (add_station (snd (add_station init ''A'' ''a'' \<lparr>cx = 0, cy = 0\<rparr>))
                     ''B'' ''b'' \<lparr>cx = 3, cy = 4\<rparr>)"

text \<open>Country 1, its subregion State 2, and the Cities 3 and 4 under the State.\<close>

definition geo :: Datastructures where
  "geo = snd (add_subregion_to_region (snd (add_subregion_to_region (snd (add_subregion_to_region
           (snd (add_region (snd (add_region (snd (add_region (snd (add_region init
              1 ''Country'' [])) 2 ''State'' [])) 3 ''City'' [])) 4 ''Town'' []))
           2 1)) 3 2)) 4 2)"

text \<open>The two stations again, with a region 7 that holds station \<open>A\<close>.\<close>

definition two_stop_region :: Datastructures where
  "two_stop_region = snd (add_station_to_region (snd (add_region two_stop 7 ''R'' [])) ''A'' 7)"

text \<open>
  The line of the specification: \<open>S1\<close> at (0,0), \<open>S2\<close> at (3,4), \<open>S3\<close> at (6,8) and the
  train \<open>T1\<close> that leaves \<open>S1\<close> at 100, \<open>S2\<close> at 110 and \<open>S3\<close> at 130.
\<close>

definition line_net :: Datastructures where
  "line_net =
     snd (projr (add_train
       (snd (add_station (snd (add_station (snd (add_station init
          ''S1'' ''one'' \<lparr>cx = 0, cy = 0\<rparr>)) ''S2'' ''two'' \<lparr>cx = 3, cy = 4\<rparr>))
          ''S3'' ''three'' \<lparr>cx = 6, cy = 8\<rparr>))
       ''T1'' [(''S1'', 100), (''S2'', 110), (''S3'', 130)]))"

definition line_addr :: "StationID \<Rightarrow> nat" where
  "line_addr k = (if k = ''S1'' then 1 else if k = ''S2'' then 2 else 3)"

text \<open>
  A diamond without a cycle: the trains \<open>T1\<close> over \<open>A, B, D\<close> and \<open>T2\<close> over \<open>A, C, D\<close>.
\<close>

definition diamond :: Datastructures where
  "diamond =
     snd (projr (add_train (snd (projr (add_train
       (snd (add_station (snd (add_station (snd (add_station (snd (add_station init
          ''A'' ''a'' \<lparr>cx = 0, cy = 0\<rparr>)) ''B'' ''b'' \<lparr>cx = 1, cy = 1\<rparr>))
          ''C'' ''c'' \<lparr>cx = 1, cy = - 1\<rparr>)) ''D'' ''d'' \<lparr>cx = 2, cy = 0\<rparr>))
       ''T1'' [(''A'', 10), (''B'', 20), (''D'', 30)])))
       ''T2'' [(''A'', 10), (''C'', 20), (''D'', 30)]))"

text \<open>
  Three stations without a cycle: the trains \<open>T1\<close> over \<open>A, C, B\<close> and \<open>T2\<close> over \<open>A, B\<close>.
\<close>

definition fork :: Datastructures where
  "fork =
     snd (projr (add_train (snd (projr (add_train
       (snd (add_station (snd (add_station (snd (add_station init
          ''A'' ''a'' \<lparr>cx = 0, cy = 0\<rparr>)) ''B'' ''b'' \<lparr>cx = 2, cy = 0\<rparr>))
          ''C'' ''c'' \<lparr>cx = 1, cy = 1\<rparr>))
       ''T1'' [(''A'', 10), (''C'', 20), (''B'', 30)])))
       ''T2'' [(''A'', 10), (''B'', 20)]))"

text \<open>A single station with a train that stops at it twice in a row.\<close>

definition loop_net :: Datastructures where
  "loop_net =
     snd (projr (add_train (snd (add_station init ''A'' ''a'' \<lparr>cx = 0, cy = 0\<rparr>))
       ''T1'' [(''A'', 10), (''A'', 20)]))"

text \<open>
  Five stations and three trains: \<open>T1\<close> over \<open>A, B, D, E\<close>, \<open>T2\<close> over \<open>A, C, D\<close> and \<open>T3\<close>
  over \<open>B, E\<close>.
\<close>

definition detour :: Datastructures where
  "detour =
     snd (projr (add_train (snd (projr (add_train (snd (projr (add_train
       (snd (add_station (snd (add_station (snd (add_station (snd (add_station (snd (add_station init
          ''A'' ''a'' \<lparr>cx = 1, cy = 0\<rparr>)) ''B'' ''b'' \<lparr>cx = 0, cy = 0\<rparr>))
          ''C'' ''c'' \<lparr>cx = 4, cy = 2\<rparr>)) ''D'' ''d'' \<lparr>cx = 1, cy = 1\<rparr>))
          ''E'' ''e'' \<lparr>cx = 3, cy = 3\<rparr>))
       ''T1'' [(''A'', 10), (''B'', 20), (''D'', 30), (''E'', 40)])))
       ''T2'' [(''A'', 10), (''C'', 20), (''D'', 30)])))
       ''T3'' [(''B'', 20), (''E'', 40)]))"

section \<open>Returned vectors, cycles and path lengths\<close>

text \<open>The vector a route query returns, without the state it leaves.\<close>

definition returned :: "'a answer \<Rightarrow> (error + 'a list) option" where
  "returned r = map_option (map_sum id fst) r"

text \<open>
  The directed graph of the edges, and whether following edges from a station leads to a
  station that lies on a cycle.
\<close>

definition edge_rel :: "Datastructures \<Rightarrow> (StationID \<times> StationID) set" where
  "edge_rel s = {(u, v). \<exists>su dep arr. stations s u = Some su \<and> (dep, arr, v) \<in> set (stations_to su)}"

definition cycle_reachable :: "Datastructures \<Rightarrow> StationID \<Rightarrow> bool" where
  "cycle_reachable s a = (\<exists>v. (a, v) \<in> (edge_rel s)\<^sup>* \<and> (v, v) \<in> (edge_rel s)\<^sup>+)"

text \<open>
  The length of a path given by its stations: the sum of the truncated distances of its
  hops, when every hop is an edge of the graph.
\<close>

definition has_edge :: "store \<Rightarrow> StationID \<Rightarrow> StationID \<Rightarrow> bool" where
  "has_edge st a b =
     (case st a of None \<Rightarrow> False | Some sa \<Rightarrow> list_ex (\<lambda>e. snd (snd e) = b) (stations_to sa))"

fun route_length :: "store \<Rightarrow> StationID list \<Rightarrow> Distance option" where
  "route_length st [] = None"
| "route_length st [a] = (if st a = None then None else Some 0)"
| "route_length st (a # b # rest) =
     (case st a of
        None \<Rightarrow> None
      | Some sa \<Rightarrow>
          (case st b of
             None \<Rightarrow> None
           | Some sb \<Rightarrow>
               if has_edge st a b
               then map_option (\<lambda>n. distance_between_points (location sa) (location sb) + n)
                      (route_length st (b # rest))
               else None))"

section \<open>Sequences of route queries\<close>

text \<open>
  The scratch fields of a station are \<^verbatim>\<open>color\<close>, \<^verbatim>\<open>d\<close>, \<^verbatim>\<open>de\<close> and \<^verbatim>\<open>pi\<close>. \<open>core\<close> blanks
  them, \<open>lift\<close> applies a function to every station of the map, and \<open>frame\<close> is the state
  without its scratch fields: two states with the same frame differ at most in what earlier
  route queries have left in the scratch fields.
\<close>

definition core :: "Station \<Rightarrow> Station" where
  "core x = x\<lparr>color := 0, sd := 0, sde := 0, spi := None\<rparr>"

definition lift :: "(Station \<Rightarrow> Station) \<Rightarrow> store \<Rightarrow> store" where
  "lift h st = (\<lambda>k. map_option h (st k))"

definition frame :: "Datastructures \<Rightarrow> Datastructures" where
  "frame s = s\<lparr>stations := lift core (stations s)\<rparr>"

text \<open>The five route queries with their arguments, and the vectors they return.\<close>

datatype query =
  Route_any StationID StationID
| Route_least_stations StationID StationID
| Route_with_cycle StationID
| Route_shortest_distance StationID StationID
| Route_earliest_arrival StationID StationID Time

datatype reply =
  Distances "(StationID \<times> Distance) list"
| Stations "StationID list"
| Times "(StationID \<times> Time) list"

definition tagged :: "('a list \<Rightarrow> reply) \<Rightarrow> 'a answer \<Rightarrow> (error + reply \<times> Datastructures) option" where
  "tagged c r = map_option (map_sum id (\<lambda>x. (c (fst x), snd x))) r"

fun ask :: "(StationID \<Rightarrow> nat) \<Rightarrow> Datastructures \<Rightarrow> query \<Rightarrow> (error + reply \<times> Datastructures) option" where
  "ask addr s (Route_any a b) = tagged Distances (route_any s a b)"
| "ask addr s (Route_least_stations a b) = tagged Distances (route_least_stations s a b)"
| "ask addr s (Route_with_cycle a) = tagged Stations (route_with_cycle s a)"
| "ask addr s (Route_shortest_distance a b) = tagged Distances (route_shortest_distance addr s a b)"
| "ask addr s (Route_earliest_arrival a b t) = tagged Times (route_earliest_arrival addr s a b t)"

text \<open>
  The reply of a query alone, and the state after a sequence of queries, each run on the
  state the one before it left: there is such a state when every query of the sequence
  returns.
\<close>

definition reply_of :: "(error + reply \<times> Datastructures) option \<Rightarrow> (error + reply) option" where
  "reply_of r = map_option (map_sum id fst) r"

fun ask_all :: "(StationID \<Rightarrow> nat) \<Rightarrow> Datastructures \<Rightarrow> query list \<Rightarrow> Datastructures option" where
  "ask_all addr s [] = Some s"
| "ask_all addr s (q # qs) =
     (case ask addr s q of
        None \<Rightarrow> None
      | Some (Inl e) \<Rightarrow> None
      | Some (Inr x) \<Rightarrow> ask_all addr (snd x) qs)"

text \<open>
  What a search returns, without the stations it leaves; and a function on stations
  applied inside the state of each loop.
\<close>

definition got :: "'a found \<Rightarrow> (error + 'a list) option" where
  "got r = map_option (map_sum id fst) r"

definition walk_lift :: "(Station \<Rightarrow> Station) \<Rightarrow> walk \<Rightarrow> walk" where
  "walk_lift h w = w\<lparr>w_store := lift h (w_store w)\<rparr>"

definition dfs_lift :: "(Station \<Rightarrow> Station) \<Rightarrow> dfs \<Rightarrow> dfs" where
  "dfs_lift h c = c\<lparr>c_store := lift h (c_store c)\<rparr>"

definition pq_lift :: "(Station \<Rightarrow> Station) \<Rightarrow> 'k pq \<Rightarrow> 'k pq" where
  "pq_lift h p = p\<lparr>q_store := lift h (q_store p)\<rparr>"

text \<open>
  The scratch fields that a query neither resets nor reads, blanked: \<^verbatim>\<open>route_any\<close> leaves
  \<^verbatim>\<open>color\<close> and \<^verbatim>\<open>de\<close> alone, \<^verbatim>\<open>route_least_stations\<close> \<^verbatim>\<open>color\<close>, \<^verbatim>\<open>route_with_cycle\<close>
  \<^verbatim>\<open>d\<close> and \<^verbatim>\<open>de\<close>, and \<^verbatim>\<open>route_earliest_arrival\<close> \<^verbatim>\<open>de\<close>.
\<close>

definition unseen_any :: "Station \<Rightarrow> Station" where
  "unseen_any x = x\<lparr>color := 0, sde := 0\<rparr>"

definition unseen_least :: "Station \<Rightarrow> Station" where
  "unseen_least x = x\<lparr>color := 0\<rparr>"

definition unseen_cycle :: "Station \<Rightarrow> Station" where
  "unseen_cycle x = x\<lparr>sd := 0, sde := 0\<rparr>"

definition unseen_earliest :: "Station \<Rightarrow> Station" where
  "unseen_earliest x = x\<lparr>sde := 0\<rparr>"

section \<open>Facts about the example states\<close>

lemma two_stop_stations:
  "stations two_stop =
     [''A'' \<mapsto> \<lparr>sid = ''A'', sname = ''a'', location = \<lparr>cx = 0, cy = 0\<rparr>, region = NO_REGION,
               departures = Map.empty, stations_to = [], color = 0, sd = 999999, sde = 999999,
               spi = None\<rparr>,
      ''B'' \<mapsto> \<lparr>sid = ''B'', sname = ''b'', location = \<lparr>cx = 3, cy = 4\<rparr>, region = NO_REGION,
               departures = Map.empty, stations_to = [], color = 0, sd = 999999, sde = 999999,
               spi = None\<rparr>]"
  by (simp add: two_stop_def add_station_def init_def NO_STATION_def NO_NAME_def NO_COORD_def
      NO_VALUE_def)

lemma two_stop_trains: "trains two_stop = Map.empty"
  by (simp add: two_stop_def add_station_def init_def NO_STATION_def NO_NAME_def NO_COORD_def
      NO_VALUE_def)

lemma two_stop_ordered: "edges_ordered two_stop"
  by (simp add: edges_ordered_def two_stop_stations)

lemma geo_regions:
  "regions geo =
     [1 \<mapsto> \<lparr>rid = 1, rname = ''Country'', coordinates = [], parent = NO_REGION, subregions = {2}\<rparr>,
      2 \<mapsto> \<lparr>rid = 2, rname = ''State'', coordinates = [], parent = 1, subregions = {4, 3}\<rparr>,
      3 \<mapsto> \<lparr>rid = 3, rname = ''City'', coordinates = [], parent = 2, subregions = {}\<rparr>,
      4 \<mapsto> \<lparr>rid = 4, rname = ''Town'', coordinates = [], parent = 2, subregions = {}\<rparr>]"
  by (simp add: geo_def add_region_def add_subregion_to_region_def init_def NO_REGION_def
      fun_upd_twist)

section \<open>Network builder: what \<^verbatim>\<open>add_train\<close> does to the edges\<close>

lemma add_departure_edges:
  "stations (snd (add_departure s a trainid t)) k = Some st' \<Longrightarrow>
     \<exists>st. stations s k = Some st \<and> stations_to st' = stations_to st"
  by (auto simp: add_departure_def split: option.splits if_splits)

lemma add_departure_edges_back:
  "stations s k = Some st \<Longrightarrow>
     \<exists>st'. stations (snd (add_departure s a trainid t)) k = Some st' \<and> stations_to st' = stations_to st"
  by (auto simp: add_departure_def split: option.splits if_splits)

lemma add_departure_trains: "trains (snd (add_departure s a trainid t)) = trains s"
  by (auto simp: add_departure_def split: option.splits if_splits)

lemma add_departure_ordered:
  "edges_ordered s \<Longrightarrow> edges_ordered (snd (add_departure s a trainid t))"
  unfolding edges_ordered_def by (metis add_departure_edges)

lemma add_departure_unordered:
  "\<not> edges_ordered s \<Longrightarrow> \<not> edges_ordered (snd (add_departure s a trainid t))"
  unfolding edges_ordered_def by (metis add_departure_edges_back)

lemma add_train_edges_ordered:
  "add_train_edges s trainid stops = Inr s' \<Longrightarrow> edges_ordered s \<Longrightarrow> sorted (map snd stops)
     \<Longrightarrow> edges_ordered s'"
proof (induction s trainid stops rule: add_train_edges.induct)
  case (1 s trainid a t b t' rest)
  let ?s1 = "snd (add_departure s a trainid t)"
  from "1.prems"(1) obtain st where st: "stations ?s1 a = Some st" and b: "stations ?s1 b \<noteq> None"
    and rec: "add_train_edges
                (?s1\<lparr>stations := (stations ?s1)(a \<mapsto> st\<lparr>stations_to := stations_to st @ [(t, t', b)]\<rparr>)\<rparr>)
                trainid ((b, t') # rest) = Inr s'"
    by (auto simp: Let_def split: if_splits option.splits)
  have o1: "edges_ordered ?s1" using "1.prems"(2) by (rule add_departure_ordered)
  have tt: "t \<le> t'" using "1.prems"(3) by simp
  have o2: "edges_ordered
              (?s1\<lparr>stations := (stations ?s1)(a \<mapsto> st\<lparr>stations_to := stations_to st @ [(t, t', b)]\<rparr>)\<rparr>)"
    using o1 st tt by (auto simp: edges_ordered_def edge_ordered_def)
  have srt: "sorted (map snd ((b, t') # rest))" using "1.prems"(3) by simp
  show ?case
    using "1.IH"[OF refl _ st rec o2 srt] b by simp
qed simp_all

lemma add_train_edges_unordered:
  "add_train_edges s trainid stops = Inr s' \<Longrightarrow> \<not> edges_ordered s \<Longrightarrow> \<not> edges_ordered s'"
proof (induction s trainid stops rule: add_train_edges.induct)
  case (1 s trainid a t b t' rest)
  let ?s1 = "snd (add_departure s a trainid t)"
  from "1.prems"(1) obtain st where st: "stations ?s1 a = Some st" and b: "stations ?s1 b \<noteq> None"
    and rec: "add_train_edges
                (?s1\<lparr>stations := (stations ?s1)(a \<mapsto> st\<lparr>stations_to := stations_to st @ [(t, t', b)]\<rparr>)\<rparr>)
                trainid ((b, t') # rest) = Inr s'"
    by (auto simp: Let_def split: if_splits option.splits)
  have o1: "\<not> edges_ordered ?s1" using "1.prems"(2) by (rule add_departure_unordered)
  then obtain k sk where k: "stations ?s1 k = Some sk" "\<not> list_all edge_ordered (stations_to sk)"
    by (auto simp: edges_ordered_def)
  have o2: "\<not> edges_ordered
              (?s1\<lparr>stations := (stations ?s1)(a \<mapsto> st\<lparr>stations_to := stations_to st @ [(t, t', b)]\<rparr>)\<rparr>)"
  proof (cases "k = a")
    case True
    then show ?thesis using k st by (auto simp: edges_ordered_def)
  next
    case False
    then show ?thesis using k unfolding edges_ordered_def
      by (intro notI) (auto dest!: spec[of _ k])
  qed
  show ?case
    using "1.IH"[OF refl _ st rec o2] b by simp
qed simp_all

lemma add_train_edges_unsorted:
  "add_train_edges s trainid stops = Inr s' \<Longrightarrow> \<not> sorted (map snd stops) \<Longrightarrow> \<not> edges_ordered s'"
proof (induction s trainid stops rule: add_train_edges.induct)
  case (1 s trainid a t b t' rest)
  let ?s1 = "snd (add_departure s a trainid t)"
  from "1.prems"(1) obtain st where st: "stations ?s1 a = Some st" and b: "stations ?s1 b \<noteq> None"
    and rec: "add_train_edges
                (?s1\<lparr>stations := (stations ?s1)(a \<mapsto> st\<lparr>stations_to := stations_to st @ [(t, t', b)]\<rparr>)\<rparr>)
                trainid ((b, t') # rest) = Inr s'"
    by (auto simp: Let_def split: if_splits option.splits)
  show ?case
  proof (cases "t \<le> t'")
    case True
    have "sorted (map snd ((a, t) # (b, t') # rest)) = sorted (map snd ((b, t') # rest))"
      using True by auto
    then have "\<not> sorted (map snd ((b, t') # rest))" using "1.prems"(2) by blast
    then show ?thesis using "1.IH"[OF refl _ st rec] b by simp
  next
    case False
    have "\<not> edges_ordered
            (?s1\<lparr>stations := (stations ?s1)(a \<mapsto> st\<lparr>stations_to := stations_to st @ [(t, t', b)]\<rparr>)\<rparr>)"
      using False unfolding edges_ordered_def
      by (intro notI) (auto simp: edge_ordered_def dest!: spec[of _ a])
    then show ?thesis using add_train_edges_unordered[OF rec] by blast
  qed
qed simp_all

lemma add_train_edges_trains:
  "add_train_edges s trainid stops = Inr s' \<Longrightarrow> trains s' = trains s"
  by (induction s trainid stops rule: add_train_edges.induct)
     (auto simp: Let_def add_departure_trains split: if_splits option.splits)

lemma add_train_registers:
  "add_train s trainid stops = Inr (True, s') \<Longrightarrow> trains s' trainid \<noteq> None"
  by (auto simp: add_train_def split: if_splits sum.splits dest!: add_train_edges_trains)

text \<open>
  C4, as amended. \<^verbatim>\<open>add_train\<close> copies the departure times of two consecutive stops into
  the edge between them and compares nothing: after a successful \<^verbatim>\<open>add_train\<close> on a state
  whose edges all have \<open>departure_time \<le> arrival_time\<close>, every edge is still so ordered
  exactly when the departure times of the stop list are non-decreasing.
\<close>

theorem add_train_edges_ordered_iff:
  assumes "add_train s trainid stops = Inr (True, s')" and "edges_ordered s"
  shows "edges_ordered s' \<longleftrightarrow> sorted (map snd stops)"
proof -
  from assms(1) obtain s0 where s0: "add_train_edges s0 trainid stops = Inr s'"
    and e0: "edges_ordered s0 = edges_ordered s"
    by (auto simp: add_train_def edges_ordered_def split: if_splits sum.splits)
  show ?thesis
    using add_train_edges_ordered[OF s0] add_train_edges_unsorted[OF s0] e0 assms(2) by blast
qed

theorem add_train_edges_ordered_iff_witness:
  "add_train two_stop ''T'' [(''A'', 100), (''B'', 110)]
     = Inr (True, snd (projr (add_train two_stop ''T'' [(''A'', 100), (''B'', 110)])))
   \<and> edges_ordered two_stop
   \<and> (edges_ordered (snd (projr (add_train two_stop ''T'' [(''A'', 100), (''B'', 110)])))
        \<longleftrightarrow> sorted (map snd [(''A'', 100 :: Time), (''B'', 110)]))"
proof -
  have ok: "add_train two_stop ''T'' [(''A'', 100), (''B'', 110)]
     = Inr (True, snd (projr (add_train two_stop ''T'' [(''A'', 100), (''B'', 110)])))"
    by (simp add: add_train_def two_stop_stations two_stop_trains add_departure_def)
  show ?thesis
    using ok two_stop_ordered add_train_edges_ordered_iff [OF ok two_stop_ordered] by simp
qed

text \<open>
  C4 as stated fails: a train that leaves \<open>A\<close> at 200 and \<open>B\<close> at 100 is accepted, and the
  edge stored at \<open>A\<close> departs at 200 and arrives at 100.
\<close>

theorem add_train_edge_order_counterexample:
  "(case add_train two_stop ''T'' [(''A'', 200), (''B'', 100)] of
      Inl e \<Rightarrow> False
    | Inr (ok, s') \<Rightarrow>
        ok \<and> map_option stations_to (stations s' ''A'') = Some [(200, 100, ''B'')]
           \<and> \<not> edge_ordered (200, 100, ''B''))"
  by (simp add: add_train_def two_stop_stations two_stop_trains add_departure_def edge_ordered_def)

text \<open>
  C5. \<^verbatim>\<open>add_train\<close> is all-or-nothing: when the train identifier is already registered, or
  some stop names a station that is not registered, it returns \<open>false\<close> and the whole
  state (trains, and every station with its departures and edges) is the one it was given.
\<close>

theorem add_train_all_or_nothing:
  assumes "trains s trainid \<noteq> None \<or> (\<exists>p \<in> set stops. stations s (fst p) = None)"
  shows "add_train s trainid stops = Inr (False, s)"
  using assms by (auto simp: add_train_def list_ex_iff)

theorem add_train_all_or_nothing_witness:
  "(\<exists>p \<in> set [(''A'', 1 :: Time), (''Z'', 2)]. stations two_stop (fst p) = None)
   \<and> add_train two_stop ''T'' [(''A'', 1), (''Z'', 2)] = Inr (False, two_stop)"
  using add_train_all_or_nothing [of two_stop "''T''" "[(''A'', 1), (''Z'', 2)]"]
  by (simp add: two_stop_stations)

text \<open>
  C9. \<^verbatim>\<open>clear_all\<close> clears the stations and the regions and leaves the trains: a train
  identifier that is registered is still registered afterwards, and \<^verbatim>\<open>add_train\<close> with it
  returns \<open>false\<close>, for any stop list.
\<close>

theorem clear_all_keeps_trains:
  assumes "trains s trainid \<noteq> None"
  shows "trains (clear_all s) = trains s
         \<and> add_train (clear_all s) trainid stops = Inr (False, clear_all s)"
  using assms by (simp add: clear_all_def add_train_def)

theorem clear_all_keeps_trains_witness:
  "trains (snd (projr (add_train two_stop ''T'' [(''A'', 100), (''B'', 110)]))) ''T'' \<noteq> None
   \<and> trains (clear_all (snd (projr (add_train two_stop ''T'' [(''A'', 100), (''B'', 110)]))))
       = trains (snd (projr (add_train two_stop ''T'' [(''A'', 100), (''B'', 110)])))
   \<and> add_train (clear_all (snd (projr (add_train two_stop ''T'' [(''A'', 100), (''B'', 110)]))))
       ''T'' []
       = Inr (False, clear_all (snd (projr (add_train two_stop ''T'' [(''A'', 100), (''B'', 110)]))))"
proof -
  have ok: "add_train two_stop ''T'' [(''A'', 100), (''B'', 110)]
     = Inr (True, snd (projr (add_train two_stop ''T'' [(''A'', 100), (''B'', 110)])))"
    by (simp add: add_train_def two_stop_stations two_stop_trains add_departure_def)
  have reg: "trains (snd (projr (add_train two_stop ''T'' [(''A'', 100), (''B'', 110)]))) ''T'' \<noteq> None"
    by (rule add_train_registers [OF ok])
  show ?thesis
    using reg clear_all_keeps_trains [OF reg, of "[]"] by simp
qed

text \<open>
  C10. A station that belongs to a region, that is, whose \<^verbatim>\<open>region\<close> field is not
  \<^verbatim>\<open>NO_REGION\<close>, keeps it: \<^verbatim>\<open>add_station_to_region\<close> returns \<open>false\<close> for every region
  and leaves the state as it was.
\<close>

theorem station_region_write_once:
  assumes "stations s ident = Some st" and "region st \<noteq> NO_REGION"
  shows "add_station_to_region s ident r = (False, s)"
  using assms by (simp add: add_station_to_region_def)

theorem station_region_write_once_witness:
  "stations two_stop_region ''A'' = Some (the (stations two_stop_region ''A''))
   \<and> region (the (stations two_stop_region ''A'')) \<noteq> NO_REGION
   \<and> add_station_to_region two_stop_region ''A'' 7 = (False, two_stop_region)"
proof -
  have st: "stations two_stop_region ''A'' = Some (the (stations two_stop_region ''A''))"
    by (simp add: two_stop_region_def add_station_to_region_def add_region_def two_stop_stations)
  have rg: "region (the (stations two_stop_region ''A'')) \<noteq> NO_REGION"
    by (simp add: two_stop_region_def add_station_to_region_def add_region_def two_stop_stations
        NO_REGION_def)
  show ?thesis
    using st rg station_region_write_once [OF st rg, of 7] by simp
qed

section \<open>Region hierarchy: the nearest common parent\<close>

text \<open>
  C3, as amended. \<^verbatim>\<open>common_parent_of_regions\<close> answers with a region that both arguments
  are subregions of. With Country the parent of State, State the parent of City and
  Country without a parent, the City and the Country have no such region and the answer
  is \<^verbatim>\<open>NO_REGION\<close>; two regions with the same immediate parent get that parent.
\<close>

theorem common_parent_three_levels:
  "(regions s city = Some rc \<and> regions s state = Some rs \<and> regions s country = Some rn
      \<and> parent rc = state \<and> parent rs = country \<and> parent rn = NO_REGION
      \<and> state \<noteq> NO_REGION \<and> country \<noteq> NO_REGION
    \<longrightarrow> common_parent_of_regions s city country = Some (Inr NO_REGION))
   \<and> (regions s city_a = Some ra \<and> regions s city_b = Some rb \<and> parent ra = state \<and> parent rb = state
    \<longrightarrow> common_parent_of_regions s city_a city_b = Some (Inr state))"
proof (intro conjI impI)
  assume h: "regions s city = Some rc \<and> regions s state = Some rs \<and> regions s country = Some rn
      \<and> parent rc = state \<and> parent rs = country \<and> parent rn = NO_REGION
      \<and> state \<noteq> NO_REGION \<and> country \<noteq> NO_REGION"
  have first_pass: "cpr_loop (regions s) (Some rc, []) (Some rn, [])
      = cpr_loop (regions s) (Some rs, [state]) (Some rn, [])"
    using h by (subst cpr_loop.simps) (simp add: climb_def at_top_def)
  have second_pass: "cpr_loop (regions s) (Some rs, [state]) (Some rn, [])
      = Some (Inr ([state, country], []))"
    using h by (subst cpr_loop.simps) (simp add: climb_def at_top_def)
  show "common_parent_of_regions s city country = Some (Inr NO_REGION)"
    using h by (simp add: common_parent_of_regions_def first_pass second_pass)
next
  assume "regions s city_a = Some ra \<and> regions s city_b = Some rb \<and> parent ra = state \<and> parent rb = state"
  then show "common_parent_of_regions s city_a city_b = Some (Inr state)"
    by (simp add: common_parent_of_regions_def)
qed

theorem common_parent_three_levels_witness:
  "(regions geo 3 = Some (the (regions geo 3)) \<and> regions geo 2 = Some (the (regions geo 2))
      \<and> regions geo 1 = Some (the (regions geo 1))
      \<and> parent (the (regions geo 3)) = 2 \<and> parent (the (regions geo 2)) = 1
      \<and> parent (the (regions geo 1)) = NO_REGION \<and> 2 \<noteq> NO_REGION \<and> 1 \<noteq> NO_REGION)
   \<and> common_parent_of_regions geo 3 1 = Some (Inr NO_REGION)
   \<and> (regions geo 3 = Some (the (regions geo 3)) \<and> regions geo 4 = Some (the (regions geo 4))
      \<and> parent (the (regions geo 3)) = 2 \<and> parent (the (regions geo 4)) = 2)
   \<and> common_parent_of_regions geo 3 4 = Some (Inr 2)"
  using common_parent_three_levels [where s = geo and city = 3 and state = 2 and country = 1
      and rc = "the (regions geo 3)" and rs = "the (regions geo 2)" and rn = "the (regions geo 1)"
      and city_a = 3 and city_b = 4 and ra = "the (regions geo 3)" and rb = "the (regions geo 4)"]
  by (simp add: geo_regions NO_REGION_def)

text \<open>
  C3 as stated fails: in the hierarchy Country 1, State 2, City 3 the query for the City
  and the Country returns \<^verbatim>\<open>NO_REGION\<close>, which is not the Country.
\<close>

theorem common_parent_counterexample:
  "common_parent_of_regions geo 3 1 = Some (Inr NO_REGION) \<and> NO_REGION \<noteq> (1 :: RegionID)"
proof -
  have first_pass: "cpr_loop (regions geo) (Some (the (regions geo 3)), []) (Some (the (regions geo 1)), [])
      = cpr_loop (regions geo) (Some (the (regions geo 2)), [2]) (Some (the (regions geo 1)), [])"
    by (subst cpr_loop.simps) (simp add: climb_def at_top_def geo_regions NO_REGION_def)
  have second_pass: "cpr_loop (regions geo) (Some (the (regions geo 2)), [2]) (Some (the (regions geo 1)), [])
      = Some (Inr ([2, 1], []))"
    by (subst cpr_loop.simps) (simp add: climb_def at_top_def geo_regions NO_REGION_def)
  have "common_parent_of_regions geo 3 1 = Some (Inr NO_REGION)"
    using first_pass second_pass
    by (simp add: common_parent_of_regions_def geo_regions NO_REGION_def)
  then show ?thesis by (simp add: NO_REGION_def)
qed

section \<open>The integer square root\<close>

lemma sqrt_upto_sq: "sqrt_upto n k * sqrt_upto n k \<le> n"
  by (induction k) auto

lemma sqrt_upto_max: "j \<le> k \<Longrightarrow> j * j \<le> n \<Longrightarrow> j \<le> sqrt_upto n k"
proof (induction k)
  case 0
  then show ?case by simp
next
  case (Suc k)
  then show ?case by (cases "j = Suc k") auto
qed

lemma isqrt_sq: "isqrt n * isqrt n \<le> n"
  by (simp add: isqrt_def sqrt_upto_sq)

lemma self_le_square: "(j :: nat) \<le> j * j"
  by (cases j) auto

lemma isqrt_max: "j * j \<le> n \<Longrightarrow> j \<le> isqrt n"
proof -
  assume a: "j * j \<le> n"
  have "j \<le> n" using self_le_square[of j] a by linarith
  then show ?thesis unfolding isqrt_def using a by (rule sqrt_upto_max)
qed

lemma isqrt_eqI: "k * k \<le> n \<Longrightarrow> n < Suc k * Suc k \<Longrightarrow> isqrt n = k"
proof -
  assume a: "k * k \<le> n" and b: "n < Suc k * Suc k"
  have "k \<le> isqrt n" using a by (rule isqrt_max)
  moreover have "isqrt n < Suc k"
  proof (rule ccontr)
    assume "\<not> isqrt n < Suc k"
    then have "Suc k \<le> isqrt n" by linarith
    then have "Suc k * Suc k \<le> isqrt n * isqrt n" by (intro mult_le_mono)
    with isqrt_sq[of n] b show False by linarith
  qed
  ultimately show ?thesis by simp
qed

lemma isqrt_floor: "int (isqrt n) = \<lfloor>sqrt (real n)\<rfloor>"
proof -
  have lo: "real (isqrt n) \<le> sqrt (real n)"
  proof (rule real_le_rsqrt)
    have "real (isqrt n * isqrt n) \<le> real n" using isqrt_sq[of n] by (simp only: of_nat_le_iff)
    then show "(real (isqrt n))\<^sup>2 \<le> real n" by (simp add: power2_eq_square)
  qed
  have "\<not> Suc (isqrt n) * Suc (isqrt n) \<le> n"
    using isqrt_max[of "Suc (isqrt n)" n] by auto
  then have "n < Suc (isqrt n) * Suc (isqrt n)" by simp
  then have "real n < real (Suc (isqrt n) * Suc (isqrt n))" by (simp only: of_nat_less_iff)
  then have "real n < (real (isqrt n) + 1)\<^sup>2" by (simp add: power2_eq_square algebra_simps)
  then have hi: "sqrt (real n) < real (isqrt n) + 1"
    by (intro real_less_lsqrt) auto
  show ?thesis
    using lo hi by (intro floor_unique[symmetric]) auto
qed

text \<open>The distance of the model is the truncated Euclidean distance of the source.\<close>

lemma distance_between_points_floor:
  "distance_between_points a b = \<lfloor>sqrt (real_of_int ((cx a - cx b)\<^sup>2 + (cy a - cy b)\<^sup>2))\<rfloor>"
proof -
  have "0 \<le> (cx a - cx b)\<^sup>2 + (cy a - cy b)\<^sup>2" by simp
  then have "real (nat ((cx a - cx b)\<^sup>2 + (cy a - cy b)\<^sup>2))
      = real_of_int ((cx a - cx b)\<^sup>2 + (cy a - cy b)\<^sup>2)"
    by (simp only: of_nat_nat)
  then show ?thesis by (simp only: distance_between_points_def isqrt_floor)
qed

lemma isqrt_values:
  "isqrt 0 = 0" "isqrt (Suc 0) = Suc 0" "isqrt 1 = 1" "isqrt 2 = 1" "isqrt 8 = 2" "isqrt 10 = 3"
  "isqrt 13 = 3" "isqrt 18 = 4" "isqrt 25 = 5"
  by (rule isqrt_eqI; simp)+

section \<open>The example networks\<close>

lemmas build_defs = add_station_def add_train_def add_departure_def init_def NO_STATION_def
  NO_NAME_def NO_COORD_def NO_VALUE_def NO_REGION_def

lemma line_net_stations:
  "stations line_net =
     [''S1'' \<mapsto> \<lparr>sid = ''S1'', sname = ''one'', location = \<lparr>cx = 0, cy = 0\<rparr>, region = NO_REGION,
                departures = [100 \<mapsto> {''T1''}], stations_to = [(100, 110, ''S2'')], color = 0,
                sd = 999999, sde = 999999, spi = None\<rparr>,
      ''S2'' \<mapsto> \<lparr>sid = ''S2'', sname = ''two'', location = \<lparr>cx = 3, cy = 4\<rparr>, region = NO_REGION,
                departures = [110 \<mapsto> {''T1''}], stations_to = [(110, 130, ''S3'')], color = 0,
                sd = 999999, sde = 999999, spi = None\<rparr>,
      ''S3'' \<mapsto> \<lparr>sid = ''S3'', sname = ''three'', location = \<lparr>cx = 6, cy = 8\<rparr>, region = NO_REGION,
                departures = Map.empty, stations_to = [], color = 0,
                sd = 999999, sde = 999999, spi = None\<rparr>]"
  by (simp add: line_net_def build_defs fun_upd_twist)

lemma diamond_stations:
  "stations diamond =
     [''A'' \<mapsto> \<lparr>sid = ''A'', sname = ''a'', location = \<lparr>cx = 0, cy = 0\<rparr>, region = NO_REGION,
               departures = [10 \<mapsto> {''T2'', ''T1''}],
               stations_to = [(10, 20, ''B''), (10, 20, ''C'')], color = 0,
               sd = 999999, sde = 999999, spi = None\<rparr>,
      ''B'' \<mapsto> \<lparr>sid = ''B'', sname = ''b'', location = \<lparr>cx = 1, cy = 1\<rparr>, region = NO_REGION,
               departures = [20 \<mapsto> {''T1''}], stations_to = [(20, 30, ''D'')], color = 0,
               sd = 999999, sde = 999999, spi = None\<rparr>,
      ''C'' \<mapsto> \<lparr>sid = ''C'', sname = ''c'', location = \<lparr>cx = 1, cy = - 1\<rparr>, region = NO_REGION,
               departures = [20 \<mapsto> {''T2''}], stations_to = [(20, 30, ''D'')], color = 0,
               sd = 999999, sde = 999999, spi = None\<rparr>,
      ''D'' \<mapsto> \<lparr>sid = ''D'', sname = ''d'', location = \<lparr>cx = 2, cy = 0\<rparr>, region = NO_REGION,
               departures = Map.empty, stations_to = [], color = 0,
               sd = 999999, sde = 999999, spi = None\<rparr>]"
  by (simp add: diamond_def build_defs fun_upd_twist)

lemma fork_stations:
  "stations fork =
     [''A'' \<mapsto> \<lparr>sid = ''A'', sname = ''a'', location = \<lparr>cx = 0, cy = 0\<rparr>, region = NO_REGION,
               departures = [10 \<mapsto> {''T2'', ''T1''}],
               stations_to = [(10, 20, ''C''), (10, 20, ''B'')], color = 0,
               sd = 999999, sde = 999999, spi = None\<rparr>,
      ''B'' \<mapsto> \<lparr>sid = ''B'', sname = ''b'', location = \<lparr>cx = 2, cy = 0\<rparr>, region = NO_REGION,
               departures = Map.empty, stations_to = [], color = 0,
               sd = 999999, sde = 999999, spi = None\<rparr>,
      ''C'' \<mapsto> \<lparr>sid = ''C'', sname = ''c'', location = \<lparr>cx = 1, cy = 1\<rparr>, region = NO_REGION,
               departures = [20 \<mapsto> {''T1''}], stations_to = [(20, 30, ''B'')], color = 0,
               sd = 999999, sde = 999999, spi = None\<rparr>]"
  by (simp add: fork_def build_defs fun_upd_twist)

lemma loop_net_stations:
  "stations loop_net =
     [''A'' \<mapsto> \<lparr>sid = ''A'', sname = ''a'', location = \<lparr>cx = 0, cy = 0\<rparr>, region = NO_REGION,
               departures = [10 \<mapsto> {''T1''}], stations_to = [(10, 20, ''A'')], color = 0,
               sd = 999999, sde = 999999, spi = None\<rparr>]"
  by (simp add: loop_net_def build_defs fun_upd_twist)

lemma detour_stations:
  "stations detour =
     [''A'' \<mapsto> \<lparr>sid = ''A'', sname = ''a'', location = \<lparr>cx = 1, cy = 0\<rparr>, region = NO_REGION,
               departures = [10 \<mapsto> {''T2'', ''T1''}],
               stations_to = [(10, 20, ''B''), (10, 20, ''C'')], color = 0,
               sd = 999999, sde = 999999, spi = None\<rparr>,
      ''B'' \<mapsto> \<lparr>sid = ''B'', sname = ''b'', location = \<lparr>cx = 0, cy = 0\<rparr>, region = NO_REGION,
               departures = [20 \<mapsto> {''T3'', ''T1''}],
               stations_to = [(20, 30, ''D''), (20, 40, ''E'')], color = 0,
               sd = 999999, sde = 999999, spi = None\<rparr>,
      ''C'' \<mapsto> \<lparr>sid = ''C'', sname = ''c'', location = \<lparr>cx = 4, cy = 2\<rparr>, region = NO_REGION,
               departures = [20 \<mapsto> {''T2''}], stations_to = [(20, 30, ''D'')], color = 0,
               sd = 999999, sde = 999999, spi = None\<rparr>,
      ''D'' \<mapsto> \<lparr>sid = ''D'', sname = ''d'', location = \<lparr>cx = 1, cy = 1\<rparr>, region = NO_REGION,
               departures = [30 \<mapsto> {''T1''}], stations_to = [(30, 40, ''E'')], color = 0,
               sd = 999999, sde = 999999, spi = None\<rparr>,
      ''E'' \<mapsto> \<lparr>sid = ''E'', sname = ''e'', location = \<lparr>cx = 3, cy = 3\<rparr>, region = NO_REGION,
               departures = Map.empty, stations_to = [], color = 0,
               sd = 999999, sde = 999999, spi = None\<rparr>]"
  by (simp add: detour_def build_defs fun_upd_twist)

lemma detour_distances:
  "distance_between_points \<lparr>cx = 1, cy = 0\<rparr> \<lparr>cx = 0, cy = 0\<rparr> = 1"
  "distance_between_points \<lparr>cx = 1, cy = 0\<rparr> \<lparr>cx = 4, cy = 2\<rparr> = 3"
  "distance_between_points \<lparr>cx = 0, cy = 0\<rparr> \<lparr>cx = 1, cy = 1\<rparr> = 1"
  "distance_between_points \<lparr>cx = 0, cy = 0\<rparr> \<lparr>cx = 3, cy = 3\<rparr> = 4"
  "distance_between_points \<lparr>cx = 4, cy = 2\<rparr> \<lparr>cx = 1, cy = 1\<rparr> = 3"
  "distance_between_points \<lparr>cx = 4, cy = 2\<rparr> \<lparr>cx = 3, cy = 3\<rparr> = 1"
  "distance_between_points \<lparr>cx = 1, cy = 1\<rparr> \<lparr>cx = 3, cy = 3\<rparr> = 2"
  "distance_between_points \<lparr>cx = 3, cy = 3\<rparr> \<lparr>cx = 3, cy = 3\<rparr> = 0"
  by (simp_all add: distance_between_points_def power2_eq_square isqrt_values)

text \<open>A graph whose edges all go up in some rank has no cycle.\<close>

lemma ranked_trancl:
  assumes "\<And>u v. (u, v) \<in> r \<Longrightarrow> f u < (f v :: nat)" and "(a, b) \<in> r\<^sup>+"
  shows "f a < f b"
  using assms(2)
proof (induction rule: trancl_induct)
  case (base y)
  then show ?case by (rule assms(1))
next
  case (step y z)
  then show ?case using assms(1)[of y z] by linarith
qed

lemma ranked_no_cycle:
  assumes "\<And>u v. (u, v) \<in> edge_rel s \<Longrightarrow> f u < (f v :: nat)"
  shows "\<not> cycle_reachable s a"
  using ranked_trancl[of "edge_rel s" f, OF assms] by (fastforce simp: cycle_reachable_def)

lemma diamond_no_cycle: "\<not> cycle_reachable diamond a"
proof (rule ranked_no_cycle)
  fix u v
  assume "(u, v) \<in> edge_rel diamond"
  then show "(if u = ''A'' then 0 else if u = ''D'' then 2 else Suc 0)
             < (if v = ''A'' then 0 else if v = ''D'' then 2 else (Suc 0 :: nat))"
    by (auto simp: edge_rel_def diamond_stations split: if_splits)
qed

lemma fork_no_cycle: "\<not> cycle_reachable fork a"
proof (rule ranked_no_cycle)
  fix u v
  assume "(u, v) \<in> edge_rel fork"
  then show "(if u = ''A'' then 0 else if u = ''B'' then 2 else Suc 0)
             < (if v = ''A'' then 0 else if v = ''B'' then 2 else (Suc 0 :: nat))"
    by (auto simp: edge_rel_def fork_stations split: if_splits)
qed

lemma loop_net_cycle: "cycle_reachable loop_net ''A''"
proof -
  have "(''A'', ''A'') \<in> edge_rel loop_net"
    by (simp add: edge_rel_def loop_net_stations)
  then have "(''A'', ''A'') \<in> (edge_rel loop_net)\<^sup>+" by (rule r_into_trancl)
  then show ?thesis unfolding cycle_reachable_def by blast
qed

section \<open>Route engine: the concrete scenarios\<close>

text \<open>
  C2, as amended. In the scenario of the line, \<^verbatim>\<open>route_earliest_arrival(S1, S3, 90)\<close>
  returns \<open>[(S1,100), (S2,110), (S3,130)]\<close>, whatever the addresses of the stations:
  each station is paired with the time the route departs from it, and the train leaves
  \<open>S1\<close> at 100.
\<close>

theorem line_earliest_arrival:
  "returned (route_earliest_arrival addr line_net ''S1'' ''S3'' 90)
     = Some (Inr [(''S1'', 100), (''S2'', 110), (''S3'', 130)])"
  by (simp add: returned_def route_earliest_arrival_def put_def dijkstra_search_def earliest_finish_def line_net_stations reset_earliest_def
      while_option_unfold pq_running_def dijkstra_step_def relax_dijkstra_def trace_back_def
      back_step_def)

text \<open>
  C2 as stated fails: the first pair of the result is \<open>(S1, 100)\<close>, not \<open>(S1, 90)\<close>.
\<close>

theorem line_earliest_arrival_counterexample:
  "returned (route_earliest_arrival line_addr line_net ''S1'' ''S3'' 90)
     \<noteq> Some (Inr [(''S1'', 90), (''S2'', 110), (''S3'', 130)])"
  by (simp add: returned_def route_earliest_arrival_def put_def dijkstra_search_def earliest_finish_def line_net_stations reset_earliest_def
      while_option_unfold pq_running_def dijkstra_step_def relax_dijkstra_def trace_back_def
      back_step_def)

text \<open>
  C1, at its failing inputs. In the diamond no cycle can be reached from \<open>A\<close>, and
  \<^verbatim>\<open>route_with_cycle(A)\<close> returns the three stations \<open>A, B, D\<close>: \<open>D\<close> was finished below
  \<open>C\<close> and still has the colour of a station on the stack when \<open>B\<close> looks at it. At the
  station with a train that stops twice in a row there is a cycle, and the result is empty:
  the walk back starts at \<^verbatim>\<open>g->pi\<close>, which is \<^verbatim>\<open>nullptr\<close> when \<^verbatim>\<open>g\<close> is the start.
\<close>

theorem route_with_cycle_diamond:
  "returned (route_with_cycle diamond ''A'') = Some (Inr [''A'', ''B'', ''D''])
   \<and> \<not> cycle_reachable diamond ''A''
   \<and> returned (route_with_cycle loop_net ''A'') = Some (Inr [])
   \<and> cycle_reachable loop_net ''A''"
proof -
  have "returned (route_with_cycle diamond ''A'') = Some (Inr [''A'', ''B'', ''D''])"
    by (simp add: returned_def route_with_cycle_def put_def cycle_search_def diamond_stations reset_cycle_def
        while_option_unfold cycle_running_def cycle_step_def trace_back_def back_step_def
        finish_def)
  moreover have "returned (route_with_cycle loop_net ''A'') = Some (Inr [])"
    by (simp add: returned_def route_with_cycle_def put_def cycle_search_def loop_net_stations reset_cycle_def
        while_option_unfold cycle_running_def cycle_step_def trace_back_def back_step_def
        finish_def)
  ultimately show ?thesis
    using diamond_no_cycle loop_net_cycle by simp
qed

text \<open>
  C6, at its failing input. Both stations of the query are known and no cycle can be
  reached from \<open>A\<close> in the network of the trains \<open>A, C, B\<close> and \<open>A, B\<close>, and
  \<^verbatim>\<open>route_with_cycle(A)\<close> returns \<open>A, C, B\<close> instead of the empty vector.
\<close>

theorem route_with_cycle_fork:
  "stations fork ''A'' \<noteq> None
   \<and> \<not> cycle_reachable fork ''A''
   \<and> returned (route_with_cycle fork ''A'') = Some (Inr [''A'', ''C'', ''B''])"
proof -
  have "returned (route_with_cycle fork ''A'') = Some (Inr [''A'', ''C'', ''B''])"
    by (simp add: returned_def route_with_cycle_def put_def cycle_search_def fork_stations reset_cycle_def
        while_option_unfold cycle_running_def cycle_step_def trace_back_def back_step_def
        finish_def)
  then show ?thesis
    using fork_no_cycle by (simp add: fork_stations)
qed

text \<open>
  C7, at its failing input. In the network of five stations \<^verbatim>\<open>route_shortest_distance(A, E)\<close>
  returns the route \<open>A, B, E\<close> of length 5, whatever the addresses of the stations, and
  the simple path \<open>A, B, D, E\<close> has length 4: \<open>D\<close> entered the set with the key 8 of the
  way over \<open>C\<close>, the set is never reordered, and \<open>E\<close> leaves it first.
\<close>

theorem route_shortest_distance_detour:
  "returned (route_shortest_distance addr detour ''A'' ''E'')
     = Some (Inr [(''A'', 0), (''B'', 1), (''E'', 5)])
   \<and> distinct [''A'', ''B'', ''D'', ''E'']
   \<and> route_length (stations detour) [''A'', ''B'', ''D'', ''E''] = Some 4"
proof -
  have "returned (route_shortest_distance addr detour ''A'' ''E'')
     = Some (Inr [(''A'', 0), (''B'', 1), (''E'', 5)])"
    by (simp add: returned_def route_shortest_distance_def put_def astar_search_def detour_stations reset_all_def
        while_option_unfold pq_running_def astar_step_def relax_astar_def trace_back_def
        back_step_def finish_def detour_distances pq_less_def)
  moreover have "route_length (stations detour) [''A'', ''B'', ''D'', ''E''] = Some 4"
    by (simp add: detour_stations has_edge_def detour_distances)
  ultimately show ?thesis by simp
qed

section \<open>Route queries write scratch fields only\<close>

lemma lift_upd: "lift h (st(v \<mapsto> y)) = (lift h st)(v \<mapsto> h y)"
  by (auto simp: lift_def fun_eq_iff)

lemma case_lift:
  "(case lift h st k of None \<Rightarrow> a | Some x \<Rightarrow> f x) = (case st k of None \<Rightarrow> a | Some x \<Rightarrow> f (h x))"
  by (simp add: lift_def split: option.splits)

lemma lift_core_upd:
  "st v = Some sv \<Longrightarrow> core y = core sv \<Longrightarrow> lift core (st(v \<mapsto> y)) = lift core st"
  by (auto simp: lift_def fun_eq_iff)

lemma core_upd:
  "core (x\<lparr>color := c\<rparr>) = core x" "core (x\<lparr>sd := n\<rparr>) = core x"
  "core (x\<lparr>sde := n\<rparr>) = core x" "core (x\<lparr>spi := p\<rparr>) = core x"
  by (simp_all add: core_def)

lemma finish_store: "finish st r = Some (Inr (xs, st')) \<Longrightarrow> st' = st"
  by (auto simp: finish_def split: option.splits back_state.splits)

lemma put_frame:
  assumes "put s r = Some (Inr (xs, s'))"
    and "\<And>xs st'. r = Some (Inr (xs, st')) \<Longrightarrow> lift core st' = lift core (stations s)"
  shows "frame s' = frame s"
  using assms by (cases r) (auto simp: put_def frame_def map_sum_def split: sum.splits)

subsection \<open>\<^verbatim>\<open>route_any\<close>\<close>

lemma any_visit_core: "w_store w v = Some sv \<Longrightarrow> lift core (w_store (any_visit u su v sv w)) = lift core (w_store w)"
  by (simp add: any_visit_def lift_core_upd core_upd)

lemma any_edges_core: "lift core (w_store (any_edges b u es w)) = lift core (w_store w)"
  by (induction b u es w rule: any_edges.induct)
     (simp_all add: any_visit_core split: option.splits)

lemma any_step_core: "lift core (w_store (any_step b w)) = lift core (w_store w)"
  by (simp add: any_step_def any_edges_core split: list.splits option.splits)

lemma any_loop_core:
  assumes "while_option walk_running (any_step b) w0 = Some w"
  shows "lift core (w_store w) = lift core (w_store w0)"
  by (rule while_option_rule[where P = "\<lambda>w. lift core (w_store w) = lift core (w_store w0)", OF _ assms])
     (simp_all add: any_step_core)

lemma any_search_core:
  assumes "any_search st a b = Some (Inr (r, st'))"
  shows "lift core st' = lift core st"
proof -
  from assms obtain s0 w where s0: "st a = Some s0"
    and w: "while_option walk_running (any_step b)
              \<lparr>w_store = st(a \<mapsto> s0\<lparr>sd := 0\<rparr>), w_queue = [(0, a)], w_found = False, w_fail = False\<rparr>
            = Some w"
    and st': "st' = w_store w"
    by (auto simp: any_search_def split: option.splits if_splits dest!: finish_store)
  have "lift core (w_store w) = lift core (st(a \<mapsto> s0\<lparr>sd := 0\<rparr>))"
    using any_loop_core[OF w] by simp
  also have "\<dots> = lift core st"
    using s0 by (intro lift_core_upd) (auto simp: core_upd)
  finally show ?thesis using st' by simp
qed

lemma reset_any_core: "lift core (reset_any st) = lift core st"
proof
  fix k
  show "lift core (reset_any st) k = lift core st k"
    by (cases "st k") (simp_all add: lift_def reset_any_def core_def)
qed

lemma route_any_frame:
  assumes "route_any s a b = Some (Inr (r, s'))"
  shows "frame s' = frame s"
proof (cases "stations s a = None \<or> stations s b = None \<or> a = b")
  case True
  then show ?thesis using assms by (auto simp: route_any_def split: if_splits)
next
  case False
  then have p: "put s (any_search (reset_any (stations s)) a b) = Some (Inr (r, s'))"
    using assms by (auto simp: route_any_def split: if_splits)
  show ?thesis
    by (rule put_frame[OF p]) (auto dest!: any_search_core simp: reset_any_core)
qed

section \<open>Route queries read only what they have reset\<close>

lemma walk_lift_simps:
  "w_store (walk_lift h w) = lift h (w_store w)" "w_queue (walk_lift h w) = w_queue w"
  "w_found (walk_lift h w) = w_found w" "w_fail (walk_lift h w) = w_fail w"
  "(walk_lift h w)\<lparr>w_queue := q\<rparr> = walk_lift h (w\<lparr>w_queue := q\<rparr>)"
  "(walk_lift h w)\<lparr>w_found := f\<rparr> = walk_lift h (w\<lparr>w_found := f\<rparr>)"
  "(walk_lift h w)\<lparr>w_fail := f\<rparr> = walk_lift h (w\<lparr>w_fail := f\<rparr>)"
  "(walk_lift h w)\<lparr>w_store := lift h st\<rparr> = walk_lift h (w\<lparr>w_store := st\<rparr>)"
  by (simp_all add: walk_lift_def)

lemma back_step_lift:
  assumes "\<And>x. sid (h x) = sid x" and "\<And>x. spi (h x) = spi x"
    and "\<And>p x. f p (h x) = f p x" and "\<And>p x. g p (h x) = g p x"
  shows "back_step (lift h st) a g f = back_step st a g f"
  by (rule ext) (simp add: back_step_def case_lift assms split: option.splits)

lemma trace_back_lift:
  assumes "\<And>x. sid (h x) = sid x" and "\<And>x. spi (h x) = spi x"
    and "\<And>p x. f p (h x) = f p x" and "\<And>p x. g p (h x) = g p x"
  shows "trace_back (lift h st) a g f i acc = trace_back st a g f i acc"
  by (simp add: trace_back_def back_step_lift[of h f g, OF assms])

lemma got_finish: "got (finish st r) = got (finish st' r)"
  by (simp add: got_def finish_def split: option.splits back_state.splits)

lemma unseen_any_simps:
  "sid (unseen_any x) = sid x" "sd (unseen_any x) = sd x" "spi (unseen_any x) = spi x"
  "location (unseen_any x) = location x" "stations_to (unseen_any x) = stations_to x"
  "(unseen_any x)\<lparr>sd := n\<rparr> = unseen_any (x\<lparr>sd := n\<rparr>)"
  "(unseen_any x)\<lparr>spi := p\<rparr> = unseen_any (x\<lparr>spi := p\<rparr>)"
  by (simp_all add: unseen_any_def)

lemma any_visit_blind:
  "any_visit u (unseen_any su) v (unseen_any sv) (walk_lift unseen_any w)
     = walk_lift unseen_any (any_visit u su v sv w)"
  by (simp add: any_visit_def walk_lift_def unseen_any_simps lift_upd)

lemma any_edges_blind:
  "any_edges b u es (walk_lift unseen_any w) = walk_lift unseen_any (any_edges b u es w)"
  by (induction b u es w rule: any_edges.induct)
     (simp_all add: walk_lift_simps case_lift unseen_any_simps any_visit_blind split: option.splits)

lemma any_step_blind:
  "any_step b (walk_lift unseen_any w) = walk_lift unseen_any (any_step b w)"
  by (simp add: any_step_def walk_lift_simps case_lift unseen_any_simps any_edges_blind
      split: list.splits option.splits)

lemma any_loop_blind:
  "while_option walk_running (any_step b) (walk_lift unseen_any w)
     = map_option (walk_lift unseen_any) (while_option walk_running (any_step b) w)"
  by (rule while_option_commute[symmetric])
     (simp_all add: walk_running_def walk_lift_simps any_step_blind)

lemma any_search_blind: "got (any_search (lift unseen_any st) a b) = got (any_search st a b)"
proof (cases "st a")
  case None
  then show ?thesis by (simp add: any_search_def case_lift)
next
  case (Some s0)
  let ?w0 = "\<lparr>w_store = st(a \<mapsto> s0\<lparr>sd := 0\<rparr>), w_queue = [(0, a)], w_found = False, w_fail = False\<rparr>"
  have init: "\<lparr>w_store = (lift unseen_any st)(a \<mapsto> unseen_any (s0\<lparr>sd := 0\<rparr>)), w_queue = [(0, a)],
                w_found = False, w_fail = False\<rparr> = walk_lift unseen_any ?w0"
    by (simp add: lift_upd walk_lift_def)
  have tr: "trace_back (lift unseen_any st') a (\<lambda>p x. (sid x, sd x)) (\<lambda>p x. (sid x, sd x)) i acc
        = trace_back st' a (\<lambda>p x. (sid x, sd x)) (\<lambda>p x. (sid x, sd x)) i acc" for i acc st'
    by (rule trace_back_lift) (simp_all add: unseen_any_simps)
  have fin: "got (finish (lift unseen_any st') r) = got (finish st' r)"
    for st' and r :: "(StationID \<times> Distance) trail option"
    by (rule got_finish)
  show ?thesis
  proof (cases "while_option walk_running (any_step b) ?w0")
    case None
    then show ?thesis using Some
      by (simp add: any_search_def case_lift unseen_any_simps init any_loop_blind)
  next
    case w: (Some w)
    show ?thesis
    proof (cases "w_store w b")
      case None
      then show ?thesis using Some w
        by (simp add: any_search_def case_lift unseen_any_simps init any_loop_blind walk_lift_simps got_def)
    next
      case sg: (Some sg)
      then show ?thesis using Some w
        by (simp add: any_search_def case_lift unseen_any_simps init any_loop_blind walk_lift_simps tr fin)
    qed
  qed
qed

lemma frame_core: "frame s = frame s' \<Longrightarrow> lift core (stations s) = lift core (stations s')"
  by (drule arg_cong[where f = stations]) (simp add: frame_def)

lemma lift_core_None: "lift core st = lift core st' \<Longrightarrow> (st k = None) = (st' k = None)"
  by (drule fun_cong[where x = k]) (cases "st k"; cases "st' k"; simp add: lift_def)

lemma lift_core_cong:
  assumes "lift core st = lift core st'" and "\<And>x. h (r x) = f (core x)"
  shows "lift h (\<lambda>k. map_option r (st k)) = lift h (\<lambda>k. map_option r (st' k))"
proof
  fix k
  have "map_option core (st k) = map_option core (st' k)"
    using fun_cong[OF assms(1), of k] by (simp add: lift_def)
  then have "map_option f (map_option core (st k)) = map_option f (map_option core (st' k))"
    by simp
  then show "lift h (\<lambda>k. map_option r (st k)) k = lift h (\<lambda>k. map_option r (st' k)) k"
    by (simp add: lift_def option.map_comp comp_def assms(2))
qed

lemma returned_put: "returned (put s r) = got r"
  by (cases r) (auto simp: returned_def put_def got_def map_sum_def split: sum.splits)

lemma route_any_same:
  assumes "frame s = frame s'"
  shows "returned (route_any s a b) = returned (route_any s' a b)"
proof -
  have c: "lift core (stations s) = lift core (stations s')" using assms by (rule frame_core)
  have r: "lift unseen_any (reset_any (stations s)) = lift unseen_any (reset_any (stations s'))"
    unfolding reset_any_def
    by (rule lift_core_cong[OF c, where f = "\<lambda>x. x\<lparr>sd := 999999\<rparr>"])
       (simp add: unseen_any_def core_def)
  have "got (any_search (reset_any (stations s)) a b) = got (any_search (reset_any (stations s')) a b)"
    using any_search_blind[of "reset_any (stations s)" a b]
      any_search_blind[of "reset_any (stations s')" a b] r by simp
  then show ?thesis
    using lift_core_None[OF c, of a] lift_core_None[OF c, of b]
    by (simp add: route_any_def returned_put) (simp add: returned_def)
qed

subsection \<open>\<^verbatim>\<open>route_least_stations\<close>\<close>

lemma least_visit_core:
  "w_store w v = Some sv \<Longrightarrow> lift core (w_store (least_visit u su v sv w)) = lift core (w_store w)"
  by (simp add: least_visit_def lift_core_upd core_upd)

lemma least_edges_core: "lift core (w_store (least_edges b u es w)) = lift core (w_store w)"
  by (induction b u es w rule: least_edges.induct)
     (simp_all add: least_visit_core split: option.splits)

lemma least_step_core: "lift core (w_store (least_step b w)) = lift core (w_store w)"
  by (simp add: least_step_def least_edges_core split: list.splits option.splits)

lemma least_loop_core:
  assumes "while_option walk_running (least_step b) w0 = Some w"
  shows "lift core (w_store w) = lift core (w_store w0)"
  by (rule while_option_rule[where P = "\<lambda>w. lift core (w_store w) = lift core (w_store w0)", OF _ assms])
     (simp_all add: least_step_core)

lemma least_search_core:
  assumes "least_search st a b = Some (Inr (r, st'))"
  shows "lift core st' = lift core st"
proof -
  from assms obtain s0 w where s0: "st a = Some s0"
    and w: "while_option walk_running (least_step b)
              \<lparr>w_store = st(a \<mapsto> s0\<lparr>sd := 0, sde := 0\<rparr>), w_queue = [(0, a)], w_found = False,
               w_fail = False\<rparr>
            = Some w"
    and st': "st' = w_store w"
    by (auto simp: least_search_def split: option.splits if_splits dest!: finish_store)
  have "lift core (w_store w) = lift core (st(a \<mapsto> s0\<lparr>sd := 0, sde := 0\<rparr>))"
    using least_loop_core[OF w] by simp
  also have "\<dots> = lift core st"
    using s0 by (intro lift_core_upd) (auto simp: core_upd)
  finally show ?thesis using st' by simp
qed

lemma reset_least_core: "lift core (reset_least st) = lift core st"
proof
  fix k
  show "lift core (reset_least st) k = lift core st k"
    by (cases "st k") (simp_all add: lift_def reset_least_def core_def)
qed

lemma route_least_stations_frame:
  assumes "route_least_stations s a b = Some (Inr (r, s'))"
  shows "frame s' = frame s"
proof (cases "stations s a = None \<or> stations s b = None \<or> a = b")
  case True
  then show ?thesis using assms by (auto simp: route_least_stations_def split: if_splits)
next
  case False
  then have p: "put s (least_search (reset_least (stations s)) a b) = Some (Inr (r, s'))"
    using assms by (auto simp: route_least_stations_def split: if_splits)
  show ?thesis
    by (rule put_frame[OF p]) (auto dest!: least_search_core simp: reset_least_core)
qed

lemma unseen_least_simps:
  "sid (unseen_least x) = sid x" "sd (unseen_least x) = sd x" "sde (unseen_least x) = sde x"
  "spi (unseen_least x) = spi x"
  "location (unseen_least x) = location x" "stations_to (unseen_least x) = stations_to x"
  "(unseen_least x)\<lparr>sd := n\<rparr> = unseen_least (x\<lparr>sd := n\<rparr>)"
  "(unseen_least x)\<lparr>sde := n\<rparr> = unseen_least (x\<lparr>sde := n\<rparr>)"
  "(unseen_least x)\<lparr>spi := p\<rparr> = unseen_least (x\<lparr>spi := p\<rparr>)"
  by (simp_all add: unseen_least_def)

lemma least_visit_blind:
  "least_visit u (unseen_least su) v (unseen_least sv) (walk_lift unseen_least w)
     = walk_lift unseen_least (least_visit u su v sv w)"
  by (simp add: least_visit_def walk_lift_def unseen_least_simps lift_upd)

lemma least_edges_blind:
  "least_edges b u es (walk_lift unseen_least w) = walk_lift unseen_least (least_edges b u es w)"
  by (induction b u es w rule: least_edges.induct)
     (simp_all add: walk_lift_simps case_lift unseen_least_simps least_visit_blind
        split: option.splits)

lemma least_step_blind:
  "least_step b (walk_lift unseen_least w) = walk_lift unseen_least (least_step b w)"
  by (simp add: least_step_def walk_lift_simps case_lift unseen_least_simps least_edges_blind
      split: list.splits option.splits)

lemma least_loop_blind:
  "while_option walk_running (least_step b) (walk_lift unseen_least w)
     = map_option (walk_lift unseen_least) (while_option walk_running (least_step b) w)"
  by (rule while_option_commute[symmetric])
     (simp_all add: walk_running_def walk_lift_simps least_step_blind)

lemma least_search_blind: "got (least_search (lift unseen_least st) a b) = got (least_search st a b)"
proof (cases "st a")
  case None
  then show ?thesis by (simp add: least_search_def case_lift)
next
  case (Some s0)
  let ?w0 = "\<lparr>w_store = st(a \<mapsto> s0\<lparr>sd := 0, sde := 0\<rparr>), w_queue = [(0, a)], w_found = False,
              w_fail = False\<rparr>"
  have init: "\<lparr>w_store = (lift unseen_least st)(a \<mapsto> unseen_least (s0\<lparr>sd := 0, sde := 0\<rparr>)),
                w_queue = [(0, a)], w_found = False, w_fail = False\<rparr> = walk_lift unseen_least ?w0"
    by (simp add: lift_upd walk_lift_def)
  have tr: "trace_back (lift unseen_least st') a (\<lambda>p x. (sid x, 0)) (\<lambda>p x. (sid x, sde x)) i acc
        = trace_back st' a (\<lambda>p x. (sid x, 0)) (\<lambda>p x. (sid x, sde x)) i acc" for i acc st'
    by (rule trace_back_lift) (simp_all add: unseen_least_simps)
  have fin: "got (finish (lift unseen_least st') r) = got (finish st' r)"
    for st' and r :: "(StationID \<times> Distance) trail option"
    by (rule got_finish)
  show ?thesis
  proof (cases "while_option walk_running (least_step b) ?w0")
    case None
    then show ?thesis using Some
      by (simp add: least_search_def case_lift unseen_least_simps init least_loop_blind)
  next
    case w: (Some w)
    show ?thesis
    proof (cases "w_store w b")
      case None
      then show ?thesis using Some w
        by (simp add: least_search_def case_lift unseen_least_simps init least_loop_blind
            walk_lift_simps got_def)
    next
      case sg: (Some sg)
      then show ?thesis using Some w
        by (simp add: least_search_def case_lift unseen_least_simps init least_loop_blind
            walk_lift_simps tr fin)
    qed
  qed
qed

lemma route_least_stations_same:
  assumes "frame s = frame s'"
  shows "returned (route_least_stations s a b) = returned (route_least_stations s' a b)"
proof -
  have c: "lift core (stations s) = lift core (stations s')" using assms by (rule frame_core)
  have r: "lift unseen_least (reset_least (stations s)) = lift unseen_least (reset_least (stations s'))"
    unfolding reset_least_def
    by (rule lift_core_cong[OF c, where f = "\<lambda>x. x\<lparr>sd := 999999, sde := 999999\<rparr>"])
       (simp add: unseen_least_def core_def)
  have "got (least_search (reset_least (stations s)) a b)
      = got (least_search (reset_least (stations s')) a b)"
    using least_search_blind[of "reset_least (stations s)" a b]
      least_search_blind[of "reset_least (stations s')" a b] r by simp
  then show ?thesis
    using lift_core_None[OF c, of a] lift_core_None[OF c, of b]
    by (simp add: route_least_stations_def returned_put) (simp add: returned_def)
qed

subsection \<open>\<^verbatim>\<open>route_with_cycle\<close>\<close>

lemma cycle_edges_core:
  "lift core (c_store c) = C \<Longrightarrow> lift core (c_store (cycle_edges u es c)) = C"
  by (induction u es c rule: cycle_edges.induct)
     (simp_all add: lift_core_upd core_upd split: option.splits)

lemma cycle_step_core: "lift core (c_store c) = C \<Longrightarrow> lift core (c_store (cycle_step c)) = C"
  by (simp add: cycle_step_def cycle_edges_core lift_core_upd core_upd
      split: list.splits option.splits)

lemma cycle_loop_core:
  assumes "while_option cycle_running cycle_step c0 = Some c"
  shows "lift core (c_store c) = lift core (c_store c0)"
  by (rule while_option_rule[where P = "\<lambda>c. lift core (c_store c) = lift core (c_store c0)", OF _ assms])
     (simp_all add: cycle_step_core)

lemma cycle_search_core:
  assumes "cycle_search st a = Some (Inr (r, st'))"
  shows "lift core st' = lift core st"
proof -
  from assms obtain c where c: "while_option cycle_running cycle_step
      \<lparr>c_store = st, c_stack = [a], c_g = None, c_cycled = None, c_found = False, c_fail = False\<rparr>
      = Some c"
    and st': "st' = c_store c"
    by (auto simp: cycle_search_def split: option.splits if_splits dest!: finish_store)
  show ?thesis using cycle_loop_core[OF c] st' by simp
qed

lemma reset_cycle_core: "lift core (reset_cycle st) = lift core st"
proof
  fix k
  show "lift core (reset_cycle st) k = lift core st k"
    by (cases "st k") (simp_all add: lift_def reset_cycle_def core_def)
qed

lemma route_with_cycle_frame:
  assumes "route_with_cycle s a = Some (Inr (r, s'))"
  shows "frame s' = frame s"
proof (cases "stations s a = None")
  case True
  then show ?thesis using assms by (auto simp: route_with_cycle_def split: if_splits)
next
  case False
  then have p: "put s (cycle_search (reset_cycle (stations s)) a) = Some (Inr (r, s'))"
    using assms by (auto simp: route_with_cycle_def split: if_splits)
  show ?thesis
    by (rule put_frame[OF p]) (auto dest!: cycle_search_core simp: reset_cycle_core)
qed

lemma dfs_lift_simps:
  "c_store (dfs_lift h c) = lift h (c_store c)" "c_stack (dfs_lift h c) = c_stack c"
  "c_g (dfs_lift h c) = c_g c" "c_cycled (dfs_lift h c) = c_cycled c"
  "c_found (dfs_lift h c) = c_found c" "c_fail (dfs_lift h c) = c_fail c"
  "(dfs_lift h c)\<lparr>c_stack := q\<rparr> = dfs_lift h (c\<lparr>c_stack := q\<rparr>)"
  "(dfs_lift h c)\<lparr>c_g := g\<rparr> = dfs_lift h (c\<lparr>c_g := g\<rparr>)"
  "(dfs_lift h c)\<lparr>c_cycled := g\<rparr> = dfs_lift h (c\<lparr>c_cycled := g\<rparr>)"
  "(dfs_lift h c)\<lparr>c_found := f\<rparr> = dfs_lift h (c\<lparr>c_found := f\<rparr>)"
  "(dfs_lift h c)\<lparr>c_fail := f\<rparr> = dfs_lift h (c\<lparr>c_fail := f\<rparr>)"
  "(dfs_lift h c)\<lparr>c_store := lift h st\<rparr> = dfs_lift h (c\<lparr>c_store := st\<rparr>)"
  by (simp_all add: dfs_lift_def)

lemma unseen_cycle_simps:
  "sid (unseen_cycle x) = sid x" "color (unseen_cycle x) = color x" "spi (unseen_cycle x) = spi x"
  "stations_to (unseen_cycle x) = stations_to x"
  "(unseen_cycle x)\<lparr>color := n\<rparr> = unseen_cycle (x\<lparr>color := n\<rparr>)"
  "(unseen_cycle x)\<lparr>spi := p\<rparr> = unseen_cycle (x\<lparr>spi := p\<rparr>)"
  by (simp_all add: unseen_cycle_def)

lemma cycle_edges_blind:
  "cycle_edges u es (dfs_lift unseen_cycle c) = dfs_lift unseen_cycle (cycle_edges u es c)"
  by (induction u es c rule: cycle_edges.induct)
     (simp_all add: dfs_lift_simps case_lift unseen_cycle_simps lift_upd[symmetric]
        split: option.splits)

lemma cycle_step_blind:
  "cycle_step (dfs_lift unseen_cycle c) = dfs_lift unseen_cycle (cycle_step c)"
  by (simp add: cycle_step_def dfs_lift_simps case_lift unseen_cycle_simps lift_upd[symmetric]
      cycle_edges_blind split: list.splits option.splits)

lemma cycle_loop_blind:
  "while_option cycle_running cycle_step (dfs_lift unseen_cycle c)
     = map_option (dfs_lift unseen_cycle) (while_option cycle_running cycle_step c)"
  by (rule while_option_commute[symmetric])
     (simp_all add: cycle_running_def dfs_lift_simps cycle_step_blind)

lemma cycle_search_blind: "got (cycle_search (lift unseen_cycle st) a) = got (cycle_search st a)"
proof -
  let ?c0 = "\<lparr>c_store = st, c_stack = [a], c_g = None, c_cycled = None, c_found = False,
              c_fail = False\<rparr>"
  have init: "\<lparr>c_store = lift unseen_cycle st, c_stack = [a], c_g = None, c_cycled = None,
                c_found = False, c_fail = False\<rparr> = dfs_lift unseen_cycle ?c0"
    by (simp add: dfs_lift_def)
  have tr: "trace_back (lift unseen_cycle st') k (\<lambda>p x. sid x) (\<lambda>p x. sid x) i acc
        = trace_back st' k (\<lambda>p x. sid x) (\<lambda>p x. sid x) i acc" for i acc st' k
    by (rule trace_back_lift) (simp_all add: unseen_cycle_simps)
  have fin: "got (finish (lift unseen_cycle st') r) = got (finish st' r)"
    for st' and r :: "StationID trail option"
    by (rule got_finish)
  show ?thesis
  proof (cases "while_option cycle_running cycle_step ?c0")
    case None
    then show ?thesis
      by (simp add: cycle_search_def init cycle_loop_blind)
  next
    case (Some c)
    then show ?thesis
      by (simp add: cycle_search_def init cycle_loop_blind dfs_lift_simps case_lift
          unseen_cycle_simps tr fin split: option.splits)
         (simp add: got_def)
  qed
qed

lemma route_with_cycle_same:
  assumes "frame s = frame s'"
  shows "returned (route_with_cycle s a) = returned (route_with_cycle s' a)"
proof -
  have c: "lift core (stations s) = lift core (stations s')" using assms by (rule frame_core)
  have r: "lift unseen_cycle (reset_cycle (stations s)) = lift unseen_cycle (reset_cycle (stations s'))"
    unfolding reset_cycle_def
    by (rule lift_core_cong[OF c, where f = "\<lambda>x. x"])
       (simp add: unseen_cycle_def core_def)
  have "got (cycle_search (reset_cycle (stations s)) a) = got (cycle_search (reset_cycle (stations s')) a)"
    using cycle_search_blind[of "reset_cycle (stations s)" a]
      cycle_search_blind[of "reset_cycle (stations s')" a] r by simp
  then show ?thesis
    using lift_core_None[OF c, of a]
    by (simp add: route_with_cycle_def returned_put) (simp add: returned_def)
qed

subsection \<open>\<^verbatim>\<open>route_shortest_distance\<close>\<close>

lemma relax_astar_core:
  "relax_astar st u v g = Some st1 \<Longrightarrow> lift core st = C \<Longrightarrow> lift core st1 = C"
  by (auto simp: relax_astar_def lift_core_upd core_upd split: option.splits if_splits)

lemma astar_edges_core:
  "lift core (q_store p) = C \<Longrightarrow> lift core (q_store (astar_edges addr g u es p)) = C"
proof (induction addr g u es p rule: astar_edges.induct)
  case (1 addr g u p)
  then show ?case by simp
next
  case (2 addr g u dep arr v es p)
  show ?case
  proof (cases "q_store p v")
    case None
    then show ?thesis using "2.prems" by simp
  next
    case sv: (Some sv)
    show ?thesis
    proof (cases "relax_astar (q_store p) u v g")
      case None
      then show ?thesis using sv "2.prems" by simp
    next
      case st1: (Some st1)
      have c1: "lift core st1 = C" using relax_astar_core[OF st1 "2.prems"] .
      show ?thesis
      proof (cases "st1 v")
        case None
        then show ?thesis using sv st1 "2.prems" by simp
      next
        case sv1: (Some sv1)
        have c2: "lift core (q_store (p\<lparr>q_store := st1(v \<mapsto> sv1\<lparr>color := 1\<rparr>), q_set := qs\<rparr>)) = C" for qs
          using sv1 c1 by (simp add: lift_core_upd core_upd)
        have c3: "lift core (q_store (p\<lparr>q_store := st1, q_set := qs\<rparr>)) = C" for qs
          using c1 by simp
        have c4: "lift core (q_store (p\<lparr>q_store := st1\<rparr>)) = C"
          using c1 by simp
        show ?thesis
        proof (cases "color sv1 = 0")
          case True
          then show ?thesis
            using sv st1 sv1 "2.IH"(1)[OF sv st1 sv1 True c2] by simp
        next
          case False
          show ?thesis
          proof (cases "sde sv > sde sv1 \<and> pq_find addr (sde sv1, v) (q_set p)")
            case True
            then show ?thesis
              using sv st1 sv1 False "2.IH"(2)[OF sv st1 sv1 False True c3] by simp
          next
            case F2: False
            then show ?thesis
              using sv st1 sv1 False "2.IH"(3)[OF sv st1 sv1 False F2 c4] by auto
          qed
        qed
      qed
    qed
  qed
qed

lemma astar_step_core:
  "lift core (q_store p) = C \<Longrightarrow> lift core (q_store (astar_step addr g p)) = C"
  by (simp add: astar_step_def astar_edges_core split: list.splits option.splits)

lemma astar_loop_core:
  assumes "while_option pq_running (astar_step addr g) p0 = Some p"
  shows "lift core (q_store p) = lift core (q_store p0)"
  by (rule while_option_rule[where P = "\<lambda>p. lift core (q_store p) = lift core (q_store p0)", OF _ assms])
     (simp_all add: astar_step_core)

lemma astar_search_core:
  assumes "astar_search addr st a b = Some (Inr (r, st'))"
  shows "lift core st' = lift core st"
proof -
  from assms obtain s0 p where s0: "st a = Some s0"
    and p: "while_option pq_running (astar_step addr b)
              \<lparr>q_store = st(a \<mapsto> s0\<lparr>sd := 0\<rparr>), q_set = [(0, a)], q_break = False, q_fail = False\<rparr>
            = Some p"
    and st': "st' = q_store p"
    by (auto simp: astar_search_def split: option.splits if_splits dest!: finish_store)
  have "lift core (q_store p) = lift core (st(a \<mapsto> s0\<lparr>sd := 0\<rparr>))"
    using astar_loop_core[OF p] by simp
  also have "\<dots> = lift core st"
    using s0 by (intro lift_core_upd) (auto simp: core_upd)
  finally show ?thesis using st' by simp
qed

lemma reset_all_core: "lift core (reset_all st) = lift core st"
proof
  fix k
  show "lift core (reset_all st) k = lift core st k"
    by (cases "st k") (simp_all add: lift_def reset_all_def core_def)
qed

lemma route_shortest_distance_frame:
  assumes "route_shortest_distance addr s a b = Some (Inr (r, s'))"
  shows "frame s' = frame s"
proof (cases "stations s a = None \<or> stations s b = None \<or> a = b")
  case True
  then show ?thesis using assms by (auto simp: route_shortest_distance_def split: if_splits)
next
  case False
  then have p: "put s (astar_search addr (reset_all (stations s)) a b) = Some (Inr (r, s'))"
    using assms by (auto simp: route_shortest_distance_def split: if_splits)
  show ?thesis
    by (rule put_frame[OF p]) (auto dest!: astar_search_core simp: reset_all_core)
qed

lemma lift_id: "lift (\<lambda>x. x) st = st"
  by (rule ext) (simp add: lift_def option.map_ident)

lemma route_shortest_distance_same:
  assumes "frame s = frame s'"
  shows "returned (route_shortest_distance addr s a b) = returned (route_shortest_distance addr s' a b)"
proof -
  have c: "lift core (stations s) = lift core (stations s')" using assms by (rule frame_core)
  have "lift (\<lambda>x. x) (reset_all (stations s)) = lift (\<lambda>x. x) (reset_all (stations s'))"
    unfolding reset_all_def
    by (rule lift_core_cong[OF c, where f = "\<lambda>x. x\<lparr>sd := 999999, sde := 999999\<rparr>"])
       (simp add: core_def)
  then have r: "reset_all (stations s) = reset_all (stations s')"
    by (simp only: lift_id)
  show ?thesis
    using lift_core_None[OF c, of a] lift_core_None[OF c, of b]
    by (simp add: route_shortest_distance_def returned_put r) (simp add: returned_def)
qed

subsection \<open>\<^verbatim>\<open>route_earliest_arrival\<close>\<close>

lemma relax_dijkstra_core:
  assumes "relax_dijkstra st u v d a = Some st1" and "lift core st = C"
  shows "lift core st1 = C"
proof (cases "st u")
  case None
  then show ?thesis using assms by (simp add: relax_dijkstra_def)
next
  case su: (Some su)
  show ?thesis
  proof (cases "st v")
    case None
    then show ?thesis using assms su by (simp add: relax_dijkstra_def)
  next
    case sv: (Some sv)
    show ?thesis
    proof (cases "sd sv > uint a \<and> sd su < uint a \<and> sd su \<le> uint d \<and> d < a")
      case False
      then show ?thesis using assms su sv by (auto simp: relax_dijkstra_def)
    next
      case True
      let ?st0 = "st(u \<mapsto> su\<lparr>sd := uint d\<rparr>)"
      have c0: "lift core ?st0 = C"
        using su assms(2) by (simp add: lift_core_upd core_upd)
      from assms(1) su sv True obtain sv1 where sv1: "?st0 v = Some sv1"
        and st1: "st1 = ?st0(v \<mapsto> sv1\<lparr>sd := uint a, spi := Some u\<rparr>)"
        by (auto simp: relax_dijkstra_def split: option.splits if_splits)
      have "lift core (?st0(v \<mapsto> sv1\<lparr>sd := uint a, spi := Some u\<rparr>)) = lift core ?st0"
        using sv1 by (intro lift_core_upd) (auto simp: core_upd)
      then show ?thesis using st1 c0 by simp
    qed
  qed
qed

lemma dijkstra_edges_core:
  "lift core (q_store p) = C \<Longrightarrow> lift core (q_store (dijkstra_edges addr u es p)) = C"
proof (induction addr u es p rule: dijkstra_edges.induct)
  case (1 addr u p)
  then show ?case by simp
next
  case (2 addr u dep arr v es p)
  show ?case
  proof (cases "q_store p v")
    case None
    then show ?thesis using "2.prems" by simp
  next
    case sv: (Some sv)
    show ?thesis
    proof (cases "relax_dijkstra (q_store p) u v dep arr")
      case None
      then show ?thesis using sv "2.prems" by simp
    next
      case st1: (Some st1)
      have c1: "lift core st1 = C" using relax_dijkstra_core[OF st1 "2.prems"] .
      show ?thesis
      proof (cases "st1 v")
        case None
        then show ?thesis using sv st1 "2.prems" by simp
      next
        case sv1: (Some sv1)
        have c2: "lift core (q_store (p\<lparr>q_store := st1(v \<mapsto> sv1\<lparr>color := 1\<rparr>), q_set := qs\<rparr>)) = C" for qs
          using sv1 c1 by (simp add: lift_core_upd core_upd)
        have c3: "lift core (q_store (p\<lparr>q_store := st1, q_set := qs\<rparr>)) = C" for qs
          using c1 by simp
        have c4: "lift core (q_store (p\<lparr>q_store := st1\<rparr>)) = C"
          using c1 by simp
        show ?thesis
        proof (cases "color sv1 = 0")
          case True
          then show ?thesis
            using sv st1 sv1 "2.IH"(1)[OF sv st1 sv1 True c2] by simp
        next
          case False
          show ?thesis
          proof (cases "uint (word_of_int (sd sv) :: Time) > sd sv1
                          \<and> pq_find addr (word_of_int (sd sv1), v) (q_set p)")
            case True
            then show ?thesis
              using sv st1 sv1 False "2.IH"(2)[OF sv st1 sv1 False True c3] by simp
          next
            case F2: False
            then show ?thesis
              using sv st1 sv1 False "2.IH"(3)[OF sv st1 sv1 False F2 c4] by auto
          qed
        qed
      qed
    qed
  qed
qed

lemma dijkstra_step_core:
  "lift core (q_store p) = C \<Longrightarrow> lift core (q_store (dijkstra_step addr g p)) = C"
  by (simp add: dijkstra_step_def dijkstra_edges_core split: list.splits option.splits)

lemma dijkstra_loop_core:
  assumes "while_option pq_running (dijkstra_step addr g) p0 = Some p"
  shows "lift core (q_store p) = lift core (q_store p0)"
  by (rule while_option_rule[where P = "\<lambda>p. lift core (q_store p) = lift core (q_store p0)", OF _ assms])
     (simp_all add: dijkstra_step_core)

lemma departure_edges_core:
  "departure_edges cur nxt prev es x = Some x1 \<Longrightarrow> lift core (fst x) = C \<Longrightarrow> lift core (fst x1) = C"
proof (induction cur nxt prev es x rule: departure_edges.induct)
  case (1 cur nxt prev x)
  then show ?case by simp
next
  case (2 cur nxt prev dep arr v es x)
  from "2.prems"(1) obtain sv sc sn where sv: "fst x v = Some sv" and sc: "fst x cur = Some sc"
    and sn: "fst x nxt = Some sn"
    by (auto split: option.splits)
  show ?case
  proof (cases "sid sv = sid sn \<and> uint dep < sd sc \<and> dep \<ge> prev \<and> uint arr \<le> sd sn")
    case True
    have c: "lift core (fst ((fst x)(cur \<mapsto> sc\<lparr>sd := uint dep\<rparr>), arr)) = C"
      using sc "2.prems"(2) by (simp add: lift_core_upd core_upd)
    have "departure_edges cur nxt prev es ((fst x)(cur \<mapsto> sc\<lparr>sd := uint dep\<rparr>), arr) = Some x1"
      using "2.prems"(1) sv sc sn True by simp
    then show ?thesis using "2.IH"(1)[OF sv sc sn True _ c] by simp
  next
    case False
    have "departure_edges cur nxt prev es x = Some x1"
      using "2.prems"(1) sv sc sn False by auto
    then show ?thesis using "2.IH"(2)[OF sv sc sn False _ "2.prems"(2)] by simp
  qed
qed

lemma departures_pass_core:
  "departures_pass path prev x = Some x1 \<Longrightarrow> lift core (fst x) = C \<Longrightarrow> lift core (fst x1) = C"
proof (induction path prev x rule: departures_pass.induct)
  case (1 cur nxt rest prev x)
  from "1.prems"(1) obtain sc x2 where sc: "fst x cur = Some sc"
    and x2: "departure_edges cur nxt prev (stations_to sc) x = Some x2"
    and rest: "departures_pass (nxt # rest) (snd x2) x2 = Some x1"
    by (auto split: option.splits)
  have "lift core (fst x2) = C" using departure_edges_core[OF x2 "1.prems"(2)] .
  then show ?case using "1.IH"[OF sc x2 rest] by simp
qed simp_all

lemma dijkstra_search_shape:
  assumes "dijkstra_search addr st a b t = Some (Inr (r, st'))"
  shows "\<exists>s0 p. st a = Some s0
           \<and> while_option pq_running (dijkstra_step addr b)
                \<lparr>q_store = st(a \<mapsto> s0\<lparr>sd := uint t\<rparr>), q_set = [(0, a)], q_break = False,
                 q_fail = False\<rparr> = Some p
           \<and> (st' = q_store p
                \<or> (\<exists>path x. departures_pass path t (q_store p, 2500) = Some x \<and> st' = fst x))"
  using assms
  by (fastforce simp: dijkstra_search_def earliest_finish_def
        split: option.splits if_splits back_state.splits)

lemma dijkstra_search_core:
  assumes "dijkstra_search addr st a b t = Some (Inr (r, st'))"
  shows "lift core st' = lift core st"
proof -
  from dijkstra_search_shape[OF assms] obtain s0 p where s0: "st a = Some s0"
    and p: "while_option pq_running (dijkstra_step addr b)
              \<lparr>q_store = st(a \<mapsto> s0\<lparr>sd := uint t\<rparr>), q_set = [(0, a)], q_break = False,
               q_fail = False\<rparr>
            = Some p"
    and st': "st' = q_store p
                \<or> (\<exists>path x. departures_pass path t (q_store p, 2500) = Some x \<and> st' = fst x)"
    by blast
  have "lift core (q_store p) = lift core (st(a \<mapsto> s0\<lparr>sd := uint t\<rparr>))"
    using dijkstra_loop_core[OF p] by simp
  also have "\<dots> = lift core st"
    using s0 by (intro lift_core_upd) (auto simp: core_upd)
  finally have c: "lift core (q_store p) = lift core st" .
  from st' show ?thesis
  proof
    assume "st' = q_store p"
    then show ?thesis using c by simp
  next
    assume "\<exists>path x. departures_pass path t (q_store p, 2500) = Some x \<and> st' = fst x"
    then obtain path x where x: "departures_pass path t (q_store p, 2500) = Some x"
      and s: "st' = fst x" by blast
    show ?thesis using departures_pass_core[OF x, of "lift core st"] c s by simp
  qed
qed

lemma reset_earliest_core: "lift core (reset_earliest st) = lift core st"
proof
  fix k
  show "lift core (reset_earliest st) k = lift core st k"
    by (cases "st k") (simp_all add: lift_def reset_earliest_def core_def)
qed

lemma route_earliest_arrival_frame:
  assumes "route_earliest_arrival addr s a b t = Some (Inr (r, s'))"
  shows "frame s' = frame s"
proof (cases "stations s a = None \<or> stations s b = None \<or> a = b")
  case True
  then show ?thesis using assms by (auto simp: route_earliest_arrival_def split: if_splits)
next
  case False
  then have p: "put s (dijkstra_search addr (reset_earliest (stations s)) a b t) = Some (Inr (r, s'))"
    using assms by (auto simp: route_earliest_arrival_def split: if_splits)
  show ?thesis
    by (rule put_frame[OF p]) (auto dest!: dijkstra_search_core simp: reset_earliest_core)
qed

lemma pq_lift_simps:
  "q_store (pq_lift h p) = lift h (q_store p)" "q_set (pq_lift h p) = q_set p"
  "q_break (pq_lift h p) = q_break p" "q_fail (pq_lift h p) = q_fail p"
  "(pq_lift h p)\<lparr>q_set := q\<rparr> = pq_lift h (p\<lparr>q_set := q\<rparr>)"
  "(pq_lift h p)\<lparr>q_break := f\<rparr> = pq_lift h (p\<lparr>q_break := f\<rparr>)"
  "(pq_lift h p)\<lparr>q_fail := f\<rparr> = pq_lift h (p\<lparr>q_fail := f\<rparr>)"
  "(pq_lift h p)\<lparr>q_store := lift h st\<rparr> = pq_lift h (p\<lparr>q_store := st\<rparr>)"
  by (simp_all add: pq_lift_def)

lemma unseen_earliest_simps:
  "sid (unseen_earliest x) = sid x" "color (unseen_earliest x) = color x"
  "sd (unseen_earliest x) = sd x" "spi (unseen_earliest x) = spi x"
  "stations_to (unseen_earliest x) = stations_to x"
  "(unseen_earliest x)\<lparr>color := c\<rparr> = unseen_earliest (x\<lparr>color := c\<rparr>)"
  "(unseen_earliest x)\<lparr>sd := n\<rparr> = unseen_earliest (x\<lparr>sd := n\<rparr>)"
  "(unseen_earliest x)\<lparr>spi := q\<rparr> = unseen_earliest (x\<lparr>spi := q\<rparr>)"
  by (simp_all add: unseen_earliest_def)

lemma relax_dijkstra_blind:
  "relax_dijkstra (lift unseen_earliest st) u v d a
     = map_option (lift unseen_earliest) (relax_dijkstra st u v d a)"
proof (cases "st u")
  case None
  then show ?thesis by (simp add: relax_dijkstra_def case_lift)
next
  case su: (Some su)
  show ?thesis
  proof (cases "st v")
    case None
    then show ?thesis using su by (simp add: relax_dijkstra_def case_lift)
  next
    case sv: (Some sv)
    have upd: "(lift unseen_earliest st)(u \<mapsto> unseen_earliest (su\<lparr>sd := uint d\<rparr>))
        = lift unseen_earliest (st(u \<mapsto> su\<lparr>sd := uint d\<rparr>))"
      by (simp add: lift_upd)
    show ?thesis
      using su sv
      by (cases "(st(u \<mapsto> su\<lparr>sd := uint d\<rparr>)) v")
         (simp_all add: relax_dijkstra_def case_lift unseen_earliest_simps upd lift_upd[symmetric]
            del: fun_upd_apply)
  qed
qed

lemma dijkstra_edges_blind:
  "dijkstra_edges addr u es (pq_lift unseen_earliest p)
     = pq_lift unseen_earliest (dijkstra_edges addr u es p)"
proof (induction addr u es p rule: dijkstra_edges.induct)
  case (1 addr u p)
  then show ?case by simp
next
  case (2 addr u dep arr v es p)
  show ?case
  proof (cases "q_store p v")
    case None
    then show ?thesis by (simp add: pq_lift_simps case_lift)
  next
    case sv: (Some sv)
    show ?thesis
    proof (cases "relax_dijkstra (q_store p) u v dep arr")
      case None
      then show ?thesis using sv
        by (simp add: pq_lift_simps case_lift relax_dijkstra_blind)
    next
      case st1: (Some st1)
      show ?thesis
      proof (cases "st1 v")
        case None
        then show ?thesis using sv st1
          by (simp add: pq_lift_simps case_lift relax_dijkstra_blind)
      next
        case sv1: (Some sv1)
        have fold: "(lift unseen_earliest st1)(v \<mapsto> unseen_earliest (sv1\<lparr>color := Suc 0\<rparr>))
            = lift unseen_earliest (st1(v \<mapsto> sv1\<lparr>color := Suc 0\<rparr>))"
          by (simp add: lift_upd)
        show ?thesis
        proof (cases "color sv1 = 0")
          case True
          then show ?thesis
            using sv st1 sv1 "2.IH"(1)[OF sv st1 sv1 True]
            by (simp add: pq_lift_simps case_lift relax_dijkstra_blind unseen_earliest_simps fold)
        next
          case False
          show ?thesis
          proof (cases "uint (word_of_int (sd sv) :: Time) > sd sv1
                          \<and> pq_find addr (word_of_int (sd sv1), v) (q_set p)")
            case True
            then show ?thesis
              using sv st1 sv1 False "2.IH"(2)[OF sv st1 sv1 False True]
              by (simp add: pq_lift_simps case_lift relax_dijkstra_blind unseen_earliest_simps)
          next
            case F2: False
            then show ?thesis
              using sv st1 sv1 False "2.IH"(3)[OF sv st1 sv1 False F2]
              by (auto simp add: pq_lift_simps case_lift relax_dijkstra_blind unseen_earliest_simps)
          qed
        qed
      qed
    qed
  qed
qed

lemma dijkstra_step_blind:
  "dijkstra_step addr g (pq_lift unseen_earliest p)
     = pq_lift unseen_earliest (dijkstra_step addr g p)"
  by (simp add: dijkstra_step_def pq_lift_simps case_lift unseen_earliest_simps
      dijkstra_edges_blind split: list.splits option.splits)

lemma dijkstra_loop_blind:
  "while_option pq_running (dijkstra_step addr g) (pq_lift unseen_earliest p)
     = map_option (pq_lift unseen_earliest) (while_option pq_running (dijkstra_step addr g) p)"
  by (rule while_option_commute[symmetric])
     (simp_all add: pq_running_def pq_lift_simps dijkstra_step_blind)

lemma departure_edges_blind:
  "departure_edges cur nxt prev es (lift unseen_earliest st, trk)
     = map_option (\<lambda>x. (lift unseen_earliest (fst x), snd x)) (departure_edges cur nxt prev es (st, trk))"
proof (induction es arbitrary: st trk)
  case Nil
  then show ?case by simp
next
  case (Cons e es)
  obtain dep arr v where e: "e = (dep, arr, v)" by (cases e) auto
  show ?case
  proof (cases "st v")
    case None
    then show ?thesis using e by (simp add: case_lift)
  next
    case sv: (Some sv)
    show ?thesis
    proof (cases "st cur")
      case None
      then show ?thesis using e sv by (simp add: case_lift)
    next
      case sc: (Some sc)
      show ?thesis
      proof (cases "st nxt")
        case None
        then show ?thesis using e sv sc by (simp add: case_lift)
      next
        case sn: (Some sn)
        have fold: "(lift unseen_earliest st)(cur \<mapsto> unseen_earliest (sc\<lparr>sd := uint dep\<rparr>))
            = lift unseen_earliest (st(cur \<mapsto> sc\<lparr>sd := uint dep\<rparr>))"
          by (simp add: lift_upd)
        show ?thesis
        proof (cases "sid sv = sid sn \<and> uint dep < sd sc \<and> dep \<ge> prev \<and> uint arr \<le> sd sn")
          case True
          have l: "departure_edges cur nxt prev (e # es) (lift unseen_earliest st, trk)
              = departure_edges cur nxt prev es
                  (lift unseen_earliest (st(cur \<mapsto> sc\<lparr>sd := uint dep\<rparr>)), arr)"
            using e sv sc sn True by (simp add: case_lift unseen_earliest_simps fold)
          have r: "departure_edges cur nxt prev (e # es) (st, trk)
              = departure_edges cur nxt prev es (st(cur \<mapsto> sc\<lparr>sd := uint dep\<rparr>), arr)"
            using e sv sc sn True by simp
          show ?thesis unfolding l r by (rule Cons.IH)
        next
          case False
          have l: "departure_edges cur nxt prev (e # es) (lift unseen_earliest st, trk)
              = departure_edges cur nxt prev es (lift unseen_earliest st, trk)"
            using e sv sc sn False by (auto simp add: case_lift unseen_earliest_simps)
          have r: "departure_edges cur nxt prev (e # es) (st, trk)
              = departure_edges cur nxt prev es (st, trk)"
            using e sv sc sn False by auto
          show ?thesis unfolding l r by (rule Cons.IH)
        qed
      qed
    qed
  qed
qed

lemma departures_pass_blind:
  "departures_pass path prev (lift unseen_earliest st, trk)
     = map_option (\<lambda>x. (lift unseen_earliest (fst x), snd x)) (departures_pass path prev (st, trk))"
proof (induction path arbitrary: prev st trk)
  case Nil
  then show ?case by simp
next
  case (Cons cur rest)
  show ?case
  proof (cases rest)
    case Nil
    then show ?thesis by simp
  next
    case (Cons nxt rest')
    show ?thesis
    proof (cases "st cur")
      case None
      then show ?thesis using Cons by (simp add: case_lift)
    next
      case sc: (Some sc)
      show ?thesis
      proof (cases "departure_edges cur nxt prev (stations_to sc) (st, trk)")
        case None
        then show ?thesis using Cons sc
          by (simp add: case_lift unseen_earliest_simps departure_edges_blind)
      next
        case (Some x1)
        then show ?thesis using Cons sc Cons.IH[of "snd x1" "fst x1" "snd x1"]
          by (simp add: case_lift unseen_earliest_simps departure_edges_blind)
      qed
    qed
  qed
qed

lemma path_times_blind: "path_times (lift unseen_earliest st) ps = path_times st ps"
  by (induction ps) (simp_all add: case_lift unseen_earliest_simps split: option.splits)

lemma second_pass_blind:
  "got (case departures_pass path t (lift unseen_earliest st, 2500) of
          None \<Rightarrow> Some (Inl Dangling)
        | Some x \<Rightarrow>
            (case path_times (fst x) path of
               None \<Rightarrow> Some (Inl Dangling)
             | Some r \<Rightarrow> Some (Inr (r, fst x))))
   = got (case departures_pass path t (st, 2500) of
          None \<Rightarrow> Some (Inl Dangling)
        | Some x \<Rightarrow>
            (case path_times (fst x) path of
               None \<Rightarrow> Some (Inl Dangling)
             | Some r \<Rightarrow> Some (Inr (r, fst x))))"
proof (cases "departures_pass path t (st, 2500)")
  case None
  then show ?thesis by (simp add: departures_pass_blind)
next
  case (Some x)
  then show ?thesis
    by (cases "path_times (fst x) path") (simp_all add: departures_pass_blind path_times_blind got_def)
qed

lemma earliest_finish_blind:
  "got (earliest_finish (lift unseen_earliest st) a b i t) = got (earliest_finish st a b i t)"
proof -
  have tr: "trace_back (lift unseen_earliest st) a (\<lambda>i x. i) (\<lambda>i x. i) i [b]
        = trace_back st a (\<lambda>i x. i) (\<lambda>i x. i) i [b]"
    by (rule trace_back_lift) (simp_all add: unseen_earliest_simps)
  show ?thesis
  proof (cases "trace_back st a (\<lambda>i x. i) (\<lambda>i x. i) i [b]")
    case None
    then show ?thesis by (simp add: earliest_finish_def tr)
  next
    case (Some tb)
    then show ?thesis
      by (cases "b_state tb") (simp_all add: earliest_finish_def tr second_pass_blind, simp_all add: got_def)
  qed
qed

lemma dijkstra_search_blind:
  "got (dijkstra_search addr (lift unseen_earliest st) a b t) = got (dijkstra_search addr st a b t)"
proof (cases "st a")
  case None
  then show ?thesis by (simp add: dijkstra_search_def case_lift)
next
  case (Some s0)
  let ?p0 = "\<lparr>q_store = st(a \<mapsto> s0\<lparr>sd := uint t\<rparr>), q_set = [(0 :: Time, a)], q_break = False,
              q_fail = False\<rparr>"
  have init: "\<lparr>q_store = (lift unseen_earliest st)(a \<mapsto> unseen_earliest (s0\<lparr>sd := uint t\<rparr>)),
                q_set = [(0 :: Time, a)], q_break = False, q_fail = False\<rparr> = pq_lift unseen_earliest ?p0"
    by (simp add: lift_upd pq_lift_def)
  show ?thesis
  proof (cases "while_option pq_running (dijkstra_step addr b) ?p0")
    case None
    then show ?thesis using Some
      by (simp add: dijkstra_search_def case_lift unseen_earliest_simps init dijkstra_loop_blind)
  next
    case p: (Some p)
    show ?thesis
    proof (cases "q_store p b")
      case None
      then show ?thesis using Some p
        by (simp add: dijkstra_search_def case_lift unseen_earliest_simps init
            dijkstra_loop_blind pq_lift_simps got_def)
    next
      case sg: (Some sg)
      show ?thesis
      proof (cases "q_fail p")
        case True
        then show ?thesis using Some p sg
          by (simp add: dijkstra_search_def case_lift unseen_earliest_simps init
              dijkstra_loop_blind pq_lift_simps got_def)
      next
        case False
        then show ?thesis using Some p sg
          by (simp add: dijkstra_search_def case_lift unseen_earliest_simps init
              dijkstra_loop_blind pq_lift_simps earliest_finish_blind)
      qed
    qed
  qed
qed

lemma route_earliest_arrival_same:
  assumes "frame s = frame s'"
  shows "returned (route_earliest_arrival addr s a b t) = returned (route_earliest_arrival addr s' a b t)"
proof -
  have c: "lift core (stations s) = lift core (stations s')" using assms by (rule frame_core)
  have r: "lift unseen_earliest (reset_earliest (stations s))
      = lift unseen_earliest (reset_earliest (stations s'))"
    unfolding reset_earliest_def
    by (rule lift_core_cong[OF c, where f = "\<lambda>x. x\<lparr>sd := 999999\<rparr>"])
       (simp add: unseen_earliest_def core_def)
  have "got (dijkstra_search addr (reset_earliest (stations s)) a b t)
      = got (dijkstra_search addr (reset_earliest (stations s')) a b t)"
    using dijkstra_search_blind[of addr "reset_earliest (stations s)" a b t]
      dijkstra_search_blind[of addr "reset_earliest (stations s')" a b t] r by simp
  then show ?thesis
    using lift_core_None[OF c, of a] lift_core_None[OF c, of b]
    by (simp add: route_earliest_arrival_def returned_put) (simp add: returned_def)
qed

section \<open>Route queries are independent of the queries before them\<close>

lemma tagged_Inr:
  "tagged c r = Some (Inr (x, s')) \<Longrightarrow> \<exists>xs. r = Some (Inr (xs, s'))"
  by (cases r) (auto simp: tagged_def map_sum_def split: sum.splits)

lemma ask_frame:
  assumes "ask addr s q = Some (Inr (r, s'))"
  shows "frame s' = frame s"
proof (cases q)
  case (Route_any a b)
  then show ?thesis using assms by (auto dest!: tagged_Inr route_any_frame)
next
  case (Route_least_stations a b)
  then show ?thesis using assms by (auto dest!: tagged_Inr route_least_stations_frame)
next
  case (Route_with_cycle a)
  then show ?thesis using assms by (auto dest!: tagged_Inr route_with_cycle_frame)
next
  case (Route_shortest_distance a b)
  then show ?thesis using assms by (auto dest!: tagged_Inr route_shortest_distance_frame)
next
  case (Route_earliest_arrival a b t)
  then show ?thesis using assms by (auto dest!: tagged_Inr route_earliest_arrival_frame)
qed

lemma ask_all_frame: "ask_all addr s qs = Some s' \<Longrightarrow> frame s' = frame s"
proof (induction qs arbitrary: s)
  case Nil
  then show ?case by simp
next
  case (Cons q qs)
  from Cons.prems obtain r s1 where q: "ask addr s q = Some (Inr (r, s1))"
    and rest: "ask_all addr s1 qs = Some s'"
    by (auto split: option.splits sum.splits)
  show ?case using Cons.IH[OF rest] ask_frame[OF q] by simp
qed

lemma reply_of_tagged: "reply_of (tagged c r) = map_option (map_sum id c) (returned r)"
  by (cases r) (auto simp: reply_of_def tagged_def returned_def map_sum_def split: sum.splits)

lemma ask_same:
  assumes "frame s = frame s'"
  shows "reply_of (ask addr s q) = reply_of (ask addr s' q)"
  by (cases q)
     (simp_all add: reply_of_tagged route_any_same[OF assms] route_least_stations_same[OF assms]
        route_with_cycle_same[OF assms] route_shortest_distance_same[OF assms]
        route_earliest_arrival_same[OF assms])

text \<open>
  C8. A route query that is run after any finite sequence of route queries, each run on the
  state the one before it left and each returning, gives the reply it gives on the state
  the sequence started from: what the earlier queries left in the scratch fields does not
  reach the answer. The replies are compared as they are, also when the query does not
  return or follows a pointer to an erased station.
\<close>

theorem route_queries_independent:
  assumes "ask_all addr s qs = Some s'"
  shows "reply_of (ask addr s' q) = reply_of (ask addr s q)"
  using ask_same[OF ask_all_frame[OF assms]] .

lemma line_distances:
  "distance_between_points \<lparr>cx = 0, cy = 0\<rparr> \<lparr>cx = 3, cy = 4\<rparr> = 5"
  "distance_between_points \<lparr>cx = 3, cy = 4\<rparr> \<lparr>cx = 6, cy = 8\<rparr> = 5"
  by (simp_all add: distance_between_points_def power2_eq_square isqrt_values)

lemma line_queries_return:
  "ask_all line_addr line_net [Route_any ''S1'' ''S3'', Route_with_cycle ''S1'']
     = Some (the (ask_all line_addr line_net [Route_any ''S1'' ''S3'', Route_with_cycle ''S1'']))"
  by (simp add: tagged_def route_any_def put_def any_search_def any_step_def any_visit_def
      walk_running_def while_option_unfold trace_back_def back_step_def finish_def
      line_net_stations reset_any_def line_distances route_with_cycle_def cycle_search_def
      cycle_step_def cycle_running_def reset_cycle_def)

theorem route_queries_independent_witness:
  "ask_all line_addr line_net [Route_any ''S1'' ''S3'', Route_with_cycle ''S1'']
     = Some (the (ask_all line_addr line_net [Route_any ''S1'' ''S3'', Route_with_cycle ''S1'']))
   \<and> reply_of (ask line_addr
         (the (ask_all line_addr line_net [Route_any ''S1'' ''S3'', Route_with_cycle ''S1'']))
         (Route_earliest_arrival ''S1'' ''S3'' 90))
     = reply_of (ask line_addr line_net (Route_earliest_arrival ''S1'' ''S3'' 90))"
  by (rule conjI [OF line_queries_return route_queries_independent [OF line_queries_return]])

section \<open>Unknown stations\<close>

text \<open>
  Every route query answers a station that is not registered with the one-element vector
  that holds the not-found pair, before it writes anything.
\<close>

lemma unknown_station_answers:
  "stations s a = None \<or> stations s b = None \<Longrightarrow>
     route_any s a b = Some (Inr ([(NO_STATION, NO_DISTANCE)], s))"
  "stations s a = None \<or> stations s b = None \<Longrightarrow>
     route_least_stations s a b = Some (Inr ([(NO_STATION, NO_DISTANCE)], s))"
  "stations s a = None \<or> stations s b = None \<Longrightarrow>
     route_shortest_distance addr s a b = Some (Inr ([(NO_STATION, NO_DISTANCE)], s))"
  "stations s a = None \<or> stations s b = None \<Longrightarrow>
     route_earliest_arrival addr s a b t = Some (Inr ([(NO_STATION, NO_TIME)], s))"
  "stations s a = None \<Longrightarrow> route_with_cycle s a = Some (Inr ([NO_STATION], s))"
  by (simp_all add: route_any_def route_least_stations_def route_shortest_distance_def
      route_earliest_arrival_def route_with_cycle_def)

end
